theory Spec2Isabelle
  imports Complex_Main "HOL-Library.AList"
begin

section \<open>Radar/vision lead fusion (selfdrive/controls/radard.py)\<close>

text \<open>
  A shallow embedding of \<^verbatim>\<open>radard.py\<close>. Python floats are modelled as
  \<^typ>\<open>real\<close> (no rounding, no NaN, no overflow), Python's unbounded integers as
  \<^typ>\<open>int\<close>, and an insertion-ordered \<^verbatim>\<open>dict\<close> as an association list
  without duplicate keys: \<^const>\<open>AList.update\<close> overwrites an existing key in place
  and appends a new key at the end, as assignment to a Python dict does. Every exception the
  modelled lines can raise is a value of \<open>py_error\<close>, returned as \<open>Inl\<close>.
\<close>

datatype py_error =
  AssertionError | AttributeError | IndexError | KeyError | ValueError | UnboundLocalError

subsection \<open>Constants\<close>

definition LEAD_PATH_DREL_MIN :: real where "LEAD_PATH_DREL_MIN = 60"
definition MIN_LANE_PROB :: real where "MIN_LANE_PROB = 0.6"
definition LEAD_ACCEL_TAU :: real where "LEAD_ACCEL_TAU = 1.5"
definition V_EGO_STATIONARY :: real where "V_EGO_STATIONARY = 4"
definition RADAR_TO_CAMERA :: real where "RADAR_TO_CAMERA = 1.52"

subsection \<open>Sequence indexing\<close>

text \<open>\<^verbatim>\<open>xs[0]\<close> and \<^verbatim>\<open>xs[-1]\<close> raise IndexError on an empty sequence;
  \<^verbatim>\<open>xs[i]\<close> raises it when \<open>i\<close> is past the end.\<close>

definition idx0 :: "'a list \<Rightarrow> py_error + 'a" where
  "idx0 xs = (case xs of [] \<Rightarrow> Inl IndexError | x # _ \<Rightarrow> Inr x)"

definition idx_last :: "'a list \<Rightarrow> py_error + 'a" where
  "idx_last xs = (if xs = [] then Inl IndexError else Inr (last xs))"

definition idx :: "'a list \<Rightarrow> nat \<Rightarrow> py_error + 'a" where
  "idx xs i = (if i < length xs then Inr (xs ! i) else Inl IndexError)"

subsection \<open>Linear interpolation\<close>

text \<open>
  Modelled from the spec: \<^verbatim>\<open>interp\<close> is imported from
  \<^verbatim>\<open>openpilot.common.numpy_fast\<close>, which is not among the sources. The spec calls it
  clamped-linear interpolation between the table points, with the endpoint values used
  outside the table. \<open>interp_hi\<close> is the index of the first breakpoint that is not below
  the argument; the value is the last ordinate when every breakpoint is below the argument,
  the first ordinate when none is, and the linear blend of the two neighbours otherwise.
\<close>

fun interp_hi :: "real \<Rightarrow> real list \<Rightarrow> nat" where
  "interp_hi xv [] = 0"
| "interp_hi xv (p # ps) = (if xv > p then Suc (interp_hi xv ps) else 0)"

definition interp :: "real \<Rightarrow> real list \<Rightarrow> real list \<Rightarrow> py_error + real" where
  "interp xv xp fp =
     (let N = length xp; hi = interp_hi xv xp; low = hi - 1 in
      if N = 0 then Inl IndexError
      else if hi = N then idx_last fp
      else if hi = 0 then idx0 fp
      else if hi < length fp
        then Inr ((xv - xp ! low) * (fp ! hi - fp ! low) / (xp ! hi - xp ! low) + fp ! low)
        else Inl IndexError)"

subsection \<open>KalmanParams\<close>

text \<open>The fields \<^verbatim>\<open>A\<close>, \<^verbatim>\<open>C\<close>, \<^verbatim>\<open>K\<close> carry the prefix \<open>kp_\<close>, since a
  one-letter record field would capture the variables of every later statement.\<close>

record KalmanParams =
  kp_A :: "real list list"
  kp_C :: "real list"
  kp_K :: "real list list"

definition dts :: "real list" where
  "dts = map (\<lambda>dt. real dt * 0.01) [1..<21]"

definition K0 :: "real list" where
  "K0 = [0.12287673, 0.14556536, 0.16522756, 0.18281627, 0.1988689,  0.21372394,
         0.22761098, 0.24069424, 0.253096,   0.26491023, 0.27621103, 0.28705801,
         0.29750003, 0.30757767, 0.31732515, 0.32677158, 0.33594201, 0.34485814,
         0.35353899, 0.36200124]"

definition K1 :: "real list" where
  "K1 = [0.29666309, 0.29330885, 0.29042818, 0.28787125, 0.28555364, 0.28342219,
         0.28144091, 0.27958406, 0.27783249, 0.27617149, 0.27458948, 0.27307714,
         0.27162685, 0.27023228, 0.26888809, 0.26758976, 0.26633338, 0.26511557,
         0.26393339, 0.26278425]"

definition KalmanParams_init :: "real \<Rightarrow> py_error + KalmanParams" where
  "KalmanParams_init dt =
     (if \<not> (dt > 0.01 \<and> dt < 0.2) then Inl AssertionError
      else case interp dt dts K0 of Inl e \<Rightarrow> Inl e | Inr k0 \<Rightarrow>
           (case interp dt dts K1 of Inl e \<Rightarrow> Inl e | Inr k1 \<Rightarrow>
              Inr \<lparr>kp_A = [[1, dt], [0, 1]], kp_C = [1, 0], kp_K = [[k0], [k1]]\<rparr>))"

subsection \<open>Track\<close>

text \<open>
  \<^verbatim>\<open>KF1D\<close> (\<^verbatim>\<open>openpilot.common.kalman.simple_kalman\<close>) is not among the
  sources. Its state \<^verbatim>\<open>x = [[speed], [accel]]\<close> and the three matrices it is built
  from are a record; its \<^verbatim>\<open>update\<close> method is a parameter \<open>kf_step\<close> of every
  function that calls it, so that what is proved holds for any filter step.
\<close>

record KF1D =
  kf_x_SPEED :: real
  kf_x_ACCEL :: real
  kf_A :: "real list list"
  kf_C :: "real list"
  kf_K :: "real list list"

definition KF1D_init :: "real \<Rightarrow> real \<Rightarrow> real list list \<Rightarrow> real list \<Rightarrow> real list list \<Rightarrow> KF1D" where
  "KF1D_init x0 x1 A C K = \<lparr>kf_x_SPEED = x0, kf_x_ACCEL = x1, kf_A = A, kf_C = C, kf_K = K\<rparr>"

text \<open>
  \<^verbatim>\<open>Track.__init__\<close> sets only \<^verbatim>\<open>identifier\<close>, \<^verbatim>\<open>cnt\<close>, \<^verbatim>\<open>aLeadTau\<close>,
  the matrices and \<^verbatim>\<open>kf\<close>. The attributes \<^verbatim>\<open>dRel\<close>, \<^verbatim>\<open>yRel\<close>, \<^verbatim>\<open>vRel\<close>,
  \<^verbatim>\<open>vLead\<close>, \<^verbatim>\<open>measured\<close>, \<^verbatim>\<open>vLeadK\<close>, \<^verbatim>\<open>aLeadK\<close> come into being together
  in the first \<^verbatim>\<open>update\<close>; reading one of them earlier raises AttributeError. They are
  the record \<open>TrackMeas\<close>, held in the optional field \<open>meas\<close>.
\<close>

record TrackMeas =
  dRel :: real
  yRel :: real
  vRel :: real
  vLead :: real
  measured :: bool
  vLeadK :: real
  aLeadK :: real

record Track =
  "identifier" :: int
  cnt :: nat
  aLeadTau :: real
  K_A :: "real list list"
  K_C :: "real list"
  K_K :: "real list list"
  kf :: KF1D
  meas :: "TrackMeas option"

definition Track_init :: "int \<Rightarrow> real \<Rightarrow> KalmanParams \<Rightarrow> Track" where
  "Track_init ident v_lead kalman_params =
     \<lparr>identifier = ident, cnt = 0, aLeadTau = LEAD_ACCEL_TAU,
      K_A = kp_A kalman_params, K_C = kp_C kalman_params, K_K = kp_K kalman_params,
      kf = KF1D_init v_lead 0 (kp_A kalman_params) (kp_C kalman_params) (kp_K kalman_params),
      meas = None\<rparr>"

definition Track_update ::
  "(KF1D \<Rightarrow> real \<Rightarrow> KF1D) \<Rightarrow> Track \<Rightarrow> real \<Rightarrow> real \<Rightarrow> real \<Rightarrow> real \<Rightarrow> bool \<Rightarrow> Track" where
  "Track_update kf_step self d_rel y_rel v_rel v_lead msrd =
     (let kf' = (if cnt self > 0 then kf_step (kf self) v_lead else kf self);
          vLeadK' = kf_x_SPEED kf';
          aLeadK' = kf_x_ACCEL kf';
          aLeadTau' = (if \<bar>aLeadK'\<bar> < 0.5 then LEAD_ACCEL_TAU else aLeadTau self * 0.9)
      in self\<lparr>kf := kf', aLeadTau := aLeadTau', cnt := cnt self + 1,
              meas := Some \<lparr>dRel = d_rel, yRel = y_rel, vRel = v_rel, vLead = v_lead,
                            measured = msrd, vLeadK = vLeadK', aLeadK = aLeadK'\<rparr>\<rparr>)"

definition get_key_for_cluster :: "Track \<Rightarrow> py_error + real list" where
  "get_key_for_cluster self =
     (case meas self of None \<Rightarrow> Inl AttributeError
      | Some m \<Rightarrow> Inr [dRel m, yRel m * 2, vRel m])"

definition reset_a_lead :: "Track \<Rightarrow> real \<Rightarrow> real \<Rightarrow> py_error + Track" where
  "reset_a_lead self a_lead_k a_lead_tau =
     (case meas self of None \<Rightarrow> Inl AttributeError
      | Some m \<Rightarrow> Inr (self\<lparr>kf := KF1D_init (vLead m) a_lead_k (K_A self) (K_C self) (K_K self),
                           meas := Some (m\<lparr>aLeadK := a_lead_k\<rparr>),
                           aLeadTau := a_lead_tau\<rparr>))"

definition is_potential_fcw :: "real \<Rightarrow> bool" where
  "is_potential_fcw model_prob = (model_prob > 0.9)"

definition potential_low_speed_lead :: "Track \<Rightarrow> real \<Rightarrow> py_error + bool" where
  "potential_low_speed_lead self v_ego =
     (case meas self of None \<Rightarrow> Inl AttributeError
      | Some m \<Rightarrow> Inr (\<bar>yRel m\<bar> < 1.0 \<and> v_ego < V_EGO_STATIONARY \<and> (0.75 < dRel m \<and> dRel m < 25)))"

subsection \<open>Vision lead hypotheses and lead records\<close>

text \<open>One entry of \<^verbatim>\<open>modelV2.leadsV3\<close>. The fields carry the prefix \<open>lm_\<close> for the
  reason given at \<open>KalmanParams\<close>.\<close>

record LeadMsg =
  lm_x :: "real list"
  lm_y :: "real list"
  lm_v :: "real list"
  lm_a :: "real list"
  lm_xStd :: "real list"
  lm_yStd :: "real list"
  lm_vStd :: "real list"
  lm_prob :: real

text \<open>
  A lead record is a Python dict. The selector starts from the one-key dict
  \<^verbatim>\<open>{'status': False}\<close>; every other dict it handles has all twelve keys. The keys
  are the fields of \<open>LeadRec\<close> under the prefix \<open>ld_\<close>; reading \<^verbatim>\<open>'dRel'\<close> from the
  one-key dict raises KeyError.
\<close>

record LeadRec =
  ld_dRel :: real
  ld_yRel :: real
  ld_vRel :: real
  ld_vLead :: real
  ld_vLeadK :: real
  ld_aLeadK :: real
  ld_aLeadTau :: real
  ld_status :: bool
  ld_fcw :: bool
  ld_modelProb :: real
  ld_radar :: bool
  ld_radarTrackId :: int

datatype lead_dict = StatusOnly bool | Full LeadRec

fun lead_status :: "lead_dict \<Rightarrow> bool" where
  "lead_status (StatusOnly b) = b"
| "lead_status (Full r) = ld_status r"

fun lead_dRel :: "lead_dict \<Rightarrow> py_error + real" where
  "lead_dRel (StatusOnly b) = Inl KeyError"
| "lead_dRel (Full r) = Inr (ld_dRel r)"

definition get_RadarState2 :: "Track \<Rightarrow> real \<Rightarrow> LeadMsg \<Rightarrow> int \<Rightarrow> py_error + LeadRec" where
  "get_RadarState2 self model_prob lead_msg mixRadarInfo =
     (case meas self of None \<Rightarrow> Inl AttributeError
      | Some m \<Rightarrow>
        (case (if mixRadarInfo > 0 \<and> lm_prob lead_msg > 0.5
               then (case idx0 (lm_a lead_msg) of Inl e \<Rightarrow> Inl e
                     | Inr a0 \<Rightarrow> Inr (\<bar>aLeadK m\<bar> < \<bar>a0\<bar>))
               else Inr False) of
           Inl e \<Rightarrow> Inl e
         | Inr useVisionMix \<Rightarrow>
           (case (if useVisionMix then idx0 (lm_a lead_msg) else Inr (aLeadK m)) of
              Inl e \<Rightarrow> Inl e
            | Inr aLeadK' \<Rightarrow>
              (case (if mixRadarInfo = 0 \<or> yRel m \<noteq> 0 then Inr (yRel m)
                     else (case idx0 (lm_y lead_msg) of Inl e \<Rightarrow> Inl e | Inr y0 \<Rightarrow> Inr (- y0))) of
                 Inl e \<Rightarrow> Inl e
               | Inr yRel' \<Rightarrow>
                 Inr \<lparr>ld_dRel = dRel m, ld_yRel = yRel', ld_vRel = vRel m, ld_vLead = vLead m,
                      ld_vLeadK = vLeadK m, ld_aLeadK = aLeadK', ld_aLeadTau = aLeadTau self,
                      ld_status = True, ld_fcw = is_potential_fcw model_prob,
                      ld_modelProb = model_prob, ld_radar = True,
                      ld_radarTrackId = identifier self\<rparr>))))"

definition get_RadarState_from_vision :: "LeadMsg \<Rightarrow> real \<Rightarrow> real \<Rightarrow> py_error + LeadRec" where
  "get_RadarState_from_vision lead_msg v_ego model_v_ego =
     (case idx0 (lm_v lead_msg) of Inl e \<Rightarrow> Inl e | Inr v0 \<Rightarrow>
      (case idx0 (lm_x lead_msg) of Inl e \<Rightarrow> Inl e | Inr x0 \<Rightarrow>
       (case idx0 (lm_y lead_msg) of Inl e \<Rightarrow> Inl e | Inr y0 \<Rightarrow>
          (let lead_v_rel_pred = v0 - model_v_ego in
           Inr \<lparr>ld_dRel = x0 - RADAR_TO_CAMERA, ld_yRel = - y0, ld_vRel = lead_v_rel_pred,
                ld_vLead = v_ego + lead_v_rel_pred, ld_vLeadK = v_ego + lead_v_rel_pred,
                ld_aLeadK = 0, ld_aLeadTau = 0.3, ld_status = True, ld_fcw = False,
                ld_modelProb = lm_prob lead_msg, ld_radar = False,
                ld_radarTrackId = - 1\<rparr>))))"

subsection \<open>Sequencing of fallible steps\<close>

text \<open>An exception raised by a step leaves the function; \<open>bindE\<close> passes the value of a step
  that returned on to the rest, \<open>mapE\<close> evaluates a fallible expression on each element of a
  sequence in order, \<open>filterE\<close> is a list comprehension with a fallible condition.\<close>

definition bindE :: "py_error + 'a \<Rightarrow> ('a \<Rightarrow> py_error + 'b) \<Rightarrow> py_error + 'b" where
  "bindE r f = (case r of Inl e \<Rightarrow> Inl e | Inr v \<Rightarrow> f v)"

fun mapE :: "('a \<Rightarrow> py_error + 'b) \<Rightarrow> 'a list \<Rightarrow> py_error + 'b list" where
  "mapE f [] = Inr []"
| "mapE f (c # cs) = bindE (f c) (\<lambda>v. bindE (mapE f cs) (\<lambda>vs. Inr (v # vs)))"

fun filterE :: "('a \<Rightarrow> py_error + bool) \<Rightarrow> 'a list \<Rightarrow> py_error + 'a list" where
  "filterE f [] = Inr []"
| "filterE f (c # cs) =
     bindE (f c) (\<lambda>b. bindE (filterE f cs) (\<lambda>vs. Inr (if b then c # vs else vs)))"

text \<open>Reading one of the attributes that the first \<^verbatim>\<open>update\<close> creates.\<close>

definition attr :: "Track \<Rightarrow> (TrackMeas \<Rightarrow> 'a) \<Rightarrow> py_error + 'a" where
  "attr self field = (case meas self of None \<Rightarrow> Inl AttributeError | Some m \<Rightarrow> Inr (field m))"

text \<open>
  Python's \<^verbatim>\<open>max(it, key=f)\<close> and \<^verbatim>\<open>min(it, key=f)\<close> raise ValueError on an empty
  iterable and otherwise keep the first element whose key is not beaten: the running best is
  replaced only by a strictly greater (smaller) key. The keys are computed beforehand and
  paired with the elements.
\<close>

fun max_from :: "real \<times> 'a \<Rightarrow> (real \<times> 'a) list \<Rightarrow> 'a" where
  "max_from (bk, b) [] = b"
| "max_from (bk, b) ((k, c) # rest) =
     (if k > bk then max_from (k, c) rest else max_from (bk, b) rest)"

fun min_from :: "real \<times> 'a \<Rightarrow> (real \<times> 'a) list \<Rightarrow> 'a" where
  "min_from (bk, b) [] = b"
| "min_from (bk, b) ((k, c) # rest) =
     (if k < bk then min_from (k, c) rest else min_from (bk, b) rest)"

definition max_keyed :: "(real \<times> 'a) list \<Rightarrow> py_error + 'a" where
  "max_keyed kcs = (case kcs of [] \<Rightarrow> Inl ValueError | kc # rest \<Rightarrow> Inr (max_from kc rest))"

definition min_keyed :: "(real \<times> 'a) list \<Rightarrow> py_error + 'a" where
  "min_keyed kcs = (case kcs of [] \<Rightarrow> Inl ValueError | kc # rest \<Rightarrow> Inr (min_from kc rest))"

subsection \<open>Vision-to-track association\<close>

definition laplacian_pdf :: "real \<Rightarrow> real \<Rightarrow> real \<Rightarrow> real" where
  "laplacian_pdf xv mu b = (let b' = max b 0.0001 in exp (- \<bar>xv - mu\<bar> / b'))"

text \<open>The closure \<^verbatim>\<open>prob(c)\<close> of \<^verbatim>\<open>match_vision_to_track\<close>, with the variables it
  captures as arguments.\<close>

definition prob :: "real \<Rightarrow> LeadMsg \<Rightarrow> real \<Rightarrow> Track \<Rightarrow> py_error + real" where
  "prob v_ego lead offset_vision_dist c =
     bindE (attr c dRel) (\<lambda>c_dRel.
     bindE (idx0 (lm_xStd lead)) (\<lambda>xStd0.
     bindE (attr c yRel) (\<lambda>c_yRel.
     bindE (idx0 (lm_y lead)) (\<lambda>y0.
     bindE (idx0 (lm_yStd lead)) (\<lambda>yStd0.
     bindE (attr c vRel) (\<lambda>c_vRel.
     bindE (idx0 (lm_v lead)) (\<lambda>v0.
     bindE (idx0 (lm_vStd lead)) (\<lambda>vStd0.
       (let prob_d = laplacian_pdf c_dRel offset_vision_dist xStd0;
            prob_y = laplacian_pdf c_yRel (- y0) yStd0;
            prob_v = laplacian_pdf (c_vRel + v_ego) v0 vStd0
        in Inr (prob_d * prob_y * prob_v))))))))))"

definition match_vision_to_track ::
  "real \<Rightarrow> LeadMsg \<Rightarrow> (int \<times> Track) list \<Rightarrow> py_error + Track option" where
  "match_vision_to_track v_ego lead tracks =
     bindE (idx0 (lm_x lead)) (\<lambda>x0.
       (let offset_vision_dist = x0 - RADAR_TO_CAMERA in
        bindE (if tracks = [] then Inl ValueError
               else mapE (\<lambda>c. bindE (prob v_ego lead offset_vision_dist c) (\<lambda>p. Inr (p, c)))
                         (map snd tracks)) (\<lambda>keyed.
        bindE (max_keyed keyed) (\<lambda>track.
        bindE (attr track dRel) (\<lambda>t_dRel.
        bindE (attr track vRel) (\<lambda>t_vRel.
        bindE (idx0 (lm_v lead)) (\<lambda>v0.
          (let dist_sane = (\<bar>t_dRel - offset_vision_dist\<bar> < max (offset_vision_dist * 0.35) 5.0);
               vel_sane = (\<bar>t_vRel + v_ego - v0\<bar> < 10 \<or> v_ego + t_vRel > 3)
           in Inr (if dist_sane \<and> vel_sane then Some track else None)))))))))"

subsection \<open>Lead selector\<close>

definition get_lead ::
  "real \<Rightarrow> bool \<Rightarrow> (int \<times> Track) list \<Rightarrow> LeadMsg \<Rightarrow> real \<Rightarrow> bool \<Rightarrow> int \<Rightarrow> py_error + lead_dict" where
  "get_lead v_ego ready tracks lead_msg model_v_ego low_speed_override mixRadarInfo =
     bindE (if length tracks > 0 \<and> ready \<and> lm_prob lead_msg > 0.5
            then match_vision_to_track v_ego lead_msg tracks else Inr None) (\<lambda>track.
     bindE (case track of
              Some t \<Rightarrow> bindE (get_RadarState2 t (lm_prob lead_msg) lead_msg mixRadarInfo)
                              (\<lambda>r. Inr (Full r))
            | None \<Rightarrow>
                if ready \<and> lm_prob lead_msg > 0.5
                then bindE (get_RadarState_from_vision lead_msg v_ego model_v_ego)
                           (\<lambda>r. Inr (Full r))
                else Inr (StatusOnly False)) (\<lambda>lead_dict.
       if low_speed_override then
         bindE (filterE (\<lambda>c. potential_low_speed_lead c v_ego) (map snd tracks)) (\<lambda>low_speed_tracks.
           if length low_speed_tracks > 0 then
             bindE (mapE (\<lambda>c. bindE (attr c dRel) (\<lambda>k. Inr (k, c))) low_speed_tracks) (\<lambda>keyed.
             bindE (min_keyed keyed) (\<lambda>closest_track.
             bindE (if \<not> lead_status lead_dict then Inr True
                    else bindE (attr closest_track dRel) (\<lambda>c_dRel.
                         bindE (lead_dRel lead_dict) (\<lambda>l_dRel. Inr (c_dRel < l_dRel)))) (\<lambda>closer.
               if closer
               then bindE (get_RadarState2 closest_track (lm_prob lead_msg) lead_msg mixRadarInfo)
                          (\<lambda>r. Inr (Full r))
               else Inr lead_dict)))
           else Inr lead_dict)
       else Inr lead_dict))"

subsection \<open>Path classification\<close>

text \<open>A lane line or the model path: two sample arrays. \<open>ModelV2\<close> holds the fields of the
  \<^verbatim>\<open>modelV2\<close> message that are read here.\<close>

record XYT =
  xy_x :: "real list"
  xy_y :: "real list"

record ModelV2 =
  laneLines :: "XYT list"
  laneLineProbs :: "real list"
  position :: XYT
  leadsV3 :: "LeadMsg list"

text \<open>An adjacent-lead dict: a lead record with the two keys \<^verbatim>\<open>'dPath'\<close> and
  \<^verbatim>\<open>'vLat'\<close> added.\<close>

record AdjLead =
  adj_ld :: LeadRec
  adj_dPath :: real
  adj_vLat :: real

text \<open>Addition of two one-dimensional numpy arrays: elementwise on equal lengths, with an
  array of length one broadcast over the other, ValueError otherwise.\<close>

definition np_add :: "real list \<Rightarrow> real list \<Rightarrow> py_error + real list" where
  "np_add a b =
     (if length a = length b then Inr (map2 (+) a b)
      else if length b = 1 then Inr (map (\<lambda>v. v + hd b) a)
      else if length a = 1 then Inr (map (\<lambda>v. hd a + v) b)
      else Inl ValueError)"

text \<open>
  Lines 187 to 205: the lane-line centerline. The result is the pair of \<^verbatim>\<open>ll_x\<close>
  (\<open>None\<close> while the name is unbound) and \<^verbatim>\<open>c_y\<close>. \<^verbatim>\<open>TRAJECTORY_SIZE\<close> is
  imported from \<^verbatim>\<open>selfdrive.controls.lib.lane_planner\<close>, which is not among the
  sources; it is the parameter \<open>TRAJECTORY_SIZE\<close>.
\<close>

definition lane_centerline ::
  "nat \<Rightarrow> ModelV2 option \<Rightarrow> real \<Rightarrow> py_error + (real list option \<times> real list option)" where
  "lane_centerline TRAJECTORY_SIZE md lane_width =
     (case md of
        None \<Rightarrow> Inr (None, None)
      | Some d \<Rightarrow>
        if lane_width > 0 \<and> length (laneLines d) = 4
           \<and> length (xy_x (laneLines d ! 1)) = TRAJECTORY_SIZE
        then
          (let ll_x = xy_x (laneLines d ! 1);
               lll_y = xy_y (laneLines d ! 1);
               rll_y = xy_y (laneLines d ! 2) in
           bindE (idx (laneLineProbs d) 1) (\<lambda>l_prob.
           bindE (idx (laneLineProbs d) 2) (\<lambda>r_prob.
             if l_prob > MIN_LANE_PROB \<and> r_prob > MIN_LANE_PROB
               then bindE (np_add lll_y rll_y) (\<lambda>s. Inr (Some ll_x, Some (map (\<lambda>v. v / 2) s)))
             else if l_prob > MIN_LANE_PROB
               then Inr (Some ll_x, Some (map (\<lambda>v. v + lane_width / 2) lll_y))
             else if r_prob > MIN_LANE_PROB
               then Inr (Some ll_x, Some (map (\<lambda>v. v - lane_width / 2) rll_y))
             else Inr (Some ll_x, None))))
        else Inr (None, None))"

text \<open>
  Lines 207 to 211: the model path, as the pair of \<^verbatim>\<open>md_y\<close> and \<^verbatim>\<open>md_x\<close>
  (\<open>None\<close> while unbound). The guard is a disjunction whose first disjunct is
  \<^verbatim>\<open>md is not None\<close>: with a model output the path is taken without looking at the other
  two disjuncts, and without one the second disjunct reads \<^verbatim>\<open>md.position\<close> of
  \<^verbatim>\<open>None\<close> and raises AttributeError.
\<close>

definition md_position :: "ModelV2 option \<Rightarrow> py_error + XYT" where
  "md_position md = (case md of None \<Rightarrow> Inl AttributeError | Some d \<Rightarrow> Inr (position d))"

definition model_path ::
  "nat \<Rightarrow> ModelV2 option \<Rightarrow> py_error + (real list option \<times> real list option)" where
  "model_path TRAJECTORY_SIZE md =
     bindE (if md \<noteq> None then Inr True
            else bindE (md_position md) (\<lambda>p.
                 if length (xy_x p) = TRAJECTORY_SIZE then Inr True
                 else bindE (md_position md) (\<lambda>p.
                      bindE (idx_last (xy_x p)) (\<lambda>x_last. Inr (x_last > LEAD_PATH_DREL_MIN))))) (\<lambda>take.
       if take
       then bindE (md_position md) (\<lambda>p. Inr (Some (xy_y p), Some (xy_x p)))
       else Inr (None, None))"

definition bound :: "'a option \<Rightarrow> py_error + 'a" where
  "bound v = (case v of None \<Rightarrow> Inl UnboundLocalError | Some w \<Rightarrow> Inr w)"

text \<open>Line 218: whether the model-path formula is used for a track at range \<open>c_dRel\<close>.\<close>

definition use_model_path ::
  "real list option \<Rightarrow> real list option \<Rightarrow> real list option \<Rightarrow> real list option \<Rightarrow> real
     \<Rightarrow> py_error + bool" where
  "use_model_path md_y md_x ll_x c_y c_dRel =
     bindE (if md_y \<noteq> None
            then bindE (bound md_x) (\<lambda>mx. bindE (idx_last mx) (\<lambda>m_last. Inr (c_dRel \<le> m_last)))
            else Inr False) (\<lambda>in_horizon.
       if in_horizon then Inr True
       else if c_y \<noteq> None
         then bindE (bound md_x) (\<lambda>mx. bindE (idx_last mx) (\<lambda>m_last.
              bindE (bound ll_x) (\<lambda>lx. bindE (idx_last lx) (\<lambda>l_last.
                Inr (m_last - c_dRel < l_last - c_dRel)))))
         else Inr False)"

text \<open>Lines 218 to 226: the lateral deviation of a track from the path.\<close>

definition track_dPath ::
  "real list option \<Rightarrow> real list option \<Rightarrow> real list option \<Rightarrow> real list option \<Rightarrow> Track
     \<Rightarrow> py_error + real" where
  "track_dPath md_y md_x ll_x c_y c =
     bindE (attr c dRel) (\<lambda>c_dRel.
     bindE (use_model_path md_y md_x ll_x c_y c_dRel) (\<lambda>use_md.
       if use_md then
         bindE (attr c yRel) (\<lambda>c_yRel.
         bindE (bound md_x) (\<lambda>mx. bindE (bound md_y) (\<lambda>my.
         bindE (interp c_dRel mx my) (\<lambda>p. Inr (- c_yRel - p)))))
       else if c_y \<noteq> None then
         bindE (attr c yRel) (\<lambda>c_yRel.
         bindE (bound ll_x) (\<lambda>lx. bindE (bound c_y) (\<lambda>cy.
         bindE (interp c_dRel lx cy) (\<lambda>p. Inr (- c_yRel - p)))))
       else bindE (attr c yRel) (\<lambda>c_yRel. Inr (- c_yRel))))"

text \<open>Lines 218 to 235: the dict built for one track.\<close>

definition adj_entry ::
  "ModelV2 option \<Rightarrow> int \<Rightarrow> real list option \<Rightarrow> real list option \<Rightarrow> real list option
     \<Rightarrow> real list option \<Rightarrow> Track \<Rightarrow> py_error + AdjLead" where
  "adj_entry md mixRadarInfo md_y md_x ll_x c_y c =
     bindE (track_dPath md_y md_x ll_x c_y c) (\<lambda>dPath.
     bindE (case md of None \<Rightarrow> Inl AttributeError | Some d \<Rightarrow> idx0 (leadsV3 d)) (\<lambda>lead_msg.
     bindE (get_RadarState2 c (lm_prob lead_msg) lead_msg mixRadarInfo) (\<lambda>ld.
     bindE (attr c dRel) (\<lambda>c_dRel.
       Inr \<lparr>adj_ld = ld, adj_dPath = dPath,
            adj_vLat = sqrt ((10 * dPath)\<^sup>2 + c_dRel\<^sup>2)\<rparr>))))"

text \<open>Lines 236 to 241: the three dicts \<^verbatim>\<open>leads_left\<close>, \<^verbatim>\<open>leads_center\<close>,
  \<^verbatim>\<open>leads_right\<close>, keyed by \<^verbatim>\<open>abs(dPath)\<close>.\<close>

type_synonym adj_dicts =
  "(real \<times> AdjLead) list \<times> (real \<times> AdjLead) list \<times> (real \<times> AdjLead) list"

fun adj_insert :: "real \<Rightarrow> AdjLead \<Rightarrow> adj_dicts \<Rightarrow> adj_dicts" where
  "adj_insert half_lane_width ld (leads_left, leads_center, leads_right) =
     (if \<bar>adj_dPath ld\<bar> < half_lane_width \<and> ld_vLeadK (adj_ld ld) > - 1
        then (leads_left, AList.update \<bar>adj_dPath ld\<bar> ld leads_center, leads_right)
      else if adj_dPath ld < 0
        then (AList.update \<bar>adj_dPath ld\<bar> ld leads_left, leads_center, leads_right)
      else (leads_left, leads_center, AList.update \<bar>adj_dPath ld\<bar> ld leads_right))"

fun adj_loop ::
  "(Track \<Rightarrow> py_error + AdjLead) \<Rightarrow> real \<Rightarrow> Track list \<Rightarrow> adj_dicts \<Rightarrow> py_error + adj_dicts" where
  "adj_loop body half_lane_width [] acc = Inr acc"
| "adj_loop body half_lane_width (c # cs) acc =
     bindE (body c) (\<lambda>ld. adj_loop body half_lane_width cs (adj_insert half_lane_width ld acc))"

text \<open>Line 243: the values of a dict in ascending order of its keys.\<close>

definition by_sorted_keys :: "(real \<times> 'v) list \<Rightarrow> 'v list" where
  "by_sorted_keys l = List.map_filter (map_of l) (sort (map fst l))"

definition get_path_adjacent_leads ::
  "nat \<Rightarrow> real \<Rightarrow> ModelV2 option \<Rightarrow> real \<Rightarrow> (int \<times> Track) list \<Rightarrow> int
     \<Rightarrow> py_error + (AdjLead list \<times> AdjLead list \<times> AdjLead list)" where
  "get_path_adjacent_leads TRAJECTORY_SIZE v_ego md lane_width clusters mixRadarInfo =
     (if length clusters = 0 then Inr ([], [], [])
      else
        bindE (lane_centerline TRAJECTORY_SIZE md lane_width) (\<lambda>(ll_x, c_y).
        bindE (model_path TRAJECTORY_SIZE md) (\<lambda>(md_y, md_x).
          (let half_lane_width = lane_width / 2 in
           bindE (adj_loop (adj_entry md mixRadarInfo md_y md_x ll_x c_y) half_lane_width
                           (map snd clusters) ([], [], [])) (\<lambda>(leads_left, leads_center, leads_right).
             Inr (by_sorted_keys leads_left,
                  sort_key (\<lambda>c. ld_dRel (adj_ld c)) (map snd leads_center),
                  by_sorted_keys leads_right))))))"

subsection \<open>Cycle orchestrator\<close>

text \<open>
  The part of \<^verbatim>\<open>RadarD\<close> that keeps the track map: the constructor and lines 314 to 345
  of \<^verbatim>\<open>update\<close>. The fields of the object carry the prefix \<open>rd_\<close>; \<open>rd_maxlen\<close>
  is the \<^verbatim>\<open>maxlen\<close> of the deque \<^verbatim>\<open>v_ego_hist\<close>. A radar point has the fields
  read in line 328, a \<^verbatim>\<open>SubMaster\<close> the three values read in lines 320 to 324.
\<close>

record RadarPoint =
  trackId :: int
  pt_dRel :: real
  pt_yRel :: real
  pt_vRel :: real
  pt_measured :: bool

record RadarData =
  points :: "RadarPoint list"
  errors :: "nat list"

record SubMaster =
  updated_carState :: bool
  carState_vEgo :: real
  updated_modelV2 :: bool

record RadarD =
  rd_tracks :: "(int \<times> Track) list"
  rd_kalman_params :: KalmanParams
  rd_v_ego :: real
  rd_v_ego_hist :: "real list"
  rd_maxlen :: nat
  rd_ready :: bool

text \<open>\<^verbatim>\<open>deque.append\<close> on a bounded deque drops the oldest element when the deque is
  full; a deque of \<^verbatim>\<open>maxlen\<close> zero stays empty.\<close>

definition deque_append :: "nat \<Rightarrow> 'a list \<Rightarrow> 'a \<Rightarrow> 'a list" where
  "deque_append maxlen q v =
     (if maxlen = 0 then []
      else if length q \<ge> maxlen then drop (Suc (length q - maxlen)) q @ [v]
      else q @ [v])"

definition RadarD_init :: "real \<Rightarrow> nat \<Rightarrow> py_error + RadarD" where
  "RadarD_init radar_ts delay =
     bindE (KalmanParams_init radar_ts) (\<lambda>kp.
       Inr \<lparr>rd_tracks = [], rd_kalman_params = kp, rd_v_ego = 0,
            rd_v_ego_hist = [0], rd_maxlen = delay + 1, rd_ready = False\<rparr>)"

text \<open>Lines 326 to 328: the frame as a dict from identifier to
  \<^verbatim>\<open>[dRel, yRel, vRel, measured]\<close>.\<close>

type_synonym rpt = "real \<times> real \<times> real \<times> bool"

definition build_ar_pts :: "RadarPoint list \<Rightarrow> (int \<times> rpt) list" where
  "build_ar_pts radar_points =
     fold (\<lambda>pt ar_pts. AList.update (trackId pt) (pt_dRel pt, pt_yRel pt, pt_vRel pt, pt_measured pt) ar_pts)
          radar_points []"

text \<open>Lines 331 to 333: eviction, over a copy of the keys.\<close>

definition evict :: "(int \<times> rpt) list \<Rightarrow> (int \<times> Track) list \<Rightarrow> (int \<times> Track) list" where
  "evict ar_pts tracks =
     fold (\<lambda>ids ts. if map_of ar_pts ids = None then AList.delete ids ts else ts)
          (map fst tracks) tracks"

text \<open>Lines 336 to 345: creation and update of the track of every identifier of the frame.\<close>

fun upsert ::
  "(KF1D \<Rightarrow> real \<Rightarrow> KF1D) \<Rightarrow> KalmanParams \<Rightarrow> real list \<Rightarrow> (int \<times> rpt) list
     \<Rightarrow> (int \<times> Track) list \<Rightarrow> py_error + (int \<times> Track) list" where
  "upsert kf_step kalman_params v_ego_hist [] tracks = Inr tracks"
| "upsert kf_step kalman_params v_ego_hist ((ids, (r_dRel, r_yRel, r_vRel, r_measured)) # rest) tracks =
     bindE (idx0 v_ego_hist) (\<lambda>h0.
       (let v_lead = r_vRel + h0;
            tracks' = (if map_of tracks ids = None
                       then AList.update ids (Track_init ids v_lead kalman_params) tracks
                       else tracks) in
        bindE (case map_of tracks' ids of None \<Rightarrow> Inl KeyError | Some t \<Rightarrow> Inr t) (\<lambda>t.
          upsert kf_step kalman_params v_ego_hist rest
            (AList.update ids (Track_update kf_step t r_dRel r_yRel r_vRel v_lead r_measured) tracks'))))"

definition RadarD_update ::
  "(KF1D \<Rightarrow> real \<Rightarrow> KF1D) \<Rightarrow> RadarD \<Rightarrow> SubMaster \<Rightarrow> RadarData option \<Rightarrow> py_error + RadarD" where
  "RadarD_update kf_step self sm rr =
     (let radar_points = (case rr of None \<Rightarrow> [] | Some d \<Rightarrow> points d);
          self1 = (if updated_carState sm
                   then self\<lparr>rd_v_ego := carState_vEgo sm,
                             rd_v_ego_hist := deque_append (rd_maxlen self) (rd_v_ego_hist self)
                                                (carState_vEgo sm)\<rparr>
                   else self);
          self2 = (if updated_modelV2 sm then self1\<lparr>rd_ready := True\<rparr> else self1);
          ar_pts = build_ar_pts radar_points;
          self3 = self2\<lparr>rd_tracks := evict ar_pts (rd_tracks self2)\<rparr> in
      bindE (upsert kf_step (rd_kalman_params self3) (rd_v_ego_hist self3) ar_pts (rd_tracks self3))
            (\<lambda>ts. Inr (self3\<lparr>rd_tracks := ts\<rparr>)))"

subsection \<open>Sequences of track updates\<close>

text \<open>One radar observation is the argument tuple of \<^verbatim>\<open>Track.update\<close>;
  \<open>Track_updates\<close> applies a sequence of them in order. \<open>accel_held\<close> says that the
  smoothed acceleration had magnitude at least 0.5 after each update of the sequence.\<close>

type_synonym radar_obs = "real \<times> real \<times> real \<times> real \<times> bool"

fun Track_update_obs :: "(KF1D \<Rightarrow> real \<Rightarrow> KF1D) \<Rightarrow> Track \<Rightarrow> radar_obs \<Rightarrow> Track" where
  "Track_update_obs kf_step self (d_rel, y_rel, v_rel, v_lead, msrd) =
     Track_update kf_step self d_rel y_rel v_rel v_lead msrd"

fun Track_updates :: "(KF1D \<Rightarrow> real \<Rightarrow> KF1D) \<Rightarrow> Track \<Rightarrow> radar_obs list \<Rightarrow> Track" where
  "Track_updates kf_step self [] = self"
| "Track_updates kf_step self (u # us) =
     Track_updates kf_step (Track_update_obs kf_step self u) us"

fun accel_held :: "(KF1D \<Rightarrow> real \<Rightarrow> KF1D) \<Rightarrow> Track \<Rightarrow> radar_obs list \<Rightarrow> bool" where
  "accel_held kf_step self [] = True"
| "accel_held kf_step self (u # us) =
     (attr (Track_update_obs kf_step self u) (\<lambda>m. \<bar>aLeadK m\<bar> \<ge> 0.5) = Inr True
      \<and> accel_held kf_step (Track_update_obs kf_step self u) us)"

subsection \<open>Well-formed inputs of the lead selector\<close>

text \<open>
  The track maps that the orchestrator hands to the selector hold only tracks that have been
  updated, and the hypotheses that the model publishes carry at least one sample in each of
  their arrays. \<open>low_speed_tracks\<close> is the list comprehension of line 280 on such a map.
\<close>

definition tracks_updated :: "(int \<times> Track) list \<Rightarrow> bool" where
  "tracks_updated tracks = list_all (\<lambda>(ids, c). meas c \<noteq> None) tracks"

definition lead_ok :: "LeadMsg \<Rightarrow> bool" where
  "lead_ok lead_msg =
     (lm_x lead_msg \<noteq> [] \<and> lm_y lead_msg \<noteq> [] \<and> lm_v lead_msg \<noteq> [] \<and> lm_a lead_msg \<noteq> []
      \<and> lm_xStd lead_msg \<noteq> [] \<and> lm_yStd lead_msg \<noteq> [] \<and> lm_vStd lead_msg \<noteq> [])"

definition low_speed_tracks :: "real \<Rightarrow> (int \<times> Track) list \<Rightarrow> Track list" where
  "low_speed_tracks v_ego tracks =
     filter (\<lambda>c. case meas c of None \<Rightarrow> False
                 | Some m \<Rightarrow> \<bar>yRel m\<bar> < 1.0 \<and> v_ego < 4 \<and> 0.75 < dRel m \<and> dRel m < 25)
            (map snd tracks)"

subsection \<open>The corridor of a track\<close>

text \<open>
  \<open>corridor_of\<close> names the branch that lines 236 to 241 take for a dict; \<open>path_entry\<close>
  is the dict that one call of \<^verbatim>\<open>get_path_adjacent_leads\<close> builds for a track: the
  centerline and the model path of lines 187 to 211, then the loop body.
\<close>

datatype corridor = LeftCorridor | CenterCorridor | RightCorridor

definition corridor_of :: "real \<Rightarrow> AdjLead \<Rightarrow> corridor" where
  "corridor_of half_lane_width ld =
     (if \<bar>adj_dPath ld\<bar> < half_lane_width \<and> ld_vLeadK (adj_ld ld) > - 1 then CenterCorridor
      else if adj_dPath ld < 0 then LeftCorridor
      else RightCorridor)"

definition path_entry :: "nat \<Rightarrow> ModelV2 option \<Rightarrow> real \<Rightarrow> int \<Rightarrow> Track \<Rightarrow> py_error + AdjLead" where
  "path_entry TRAJECTORY_SIZE md lane_width mixRadarInfo c =
     bindE (lane_centerline TRAJECTORY_SIZE md lane_width) (\<lambda>(ll_x, c_y).
     bindE (model_path TRAJECTORY_SIZE md) (\<lambda>(md_y, md_x).
       adj_entry md mixRadarInfo md_y md_x ll_x c_y c))"

text \<open>Filing a sequence of dicts into one corridor dict, each under the key \<open>|dPath|\<close>.\<close>

definition file_all :: "AdjLead list \<Rightarrow> (real \<times> AdjLead) list \<Rightarrow> (real \<times> AdjLead) list" where
  "file_all es d = fold (\<lambda>ld. AList.update \<bar>adj_dPath ld\<bar> ld) es d"


section \<open>Example inputs\<close>

text \<open>Concrete inputs at which the properties below are instantiated.\<close>

definition kp_example :: KalmanParams where
  "kp_example = \<lparr>kp_A = [[1, 0.05], [0, 1]], kp_C = [1, 0], kp_K = [[0.2], [0.28]]\<rparr>"

definition track_example :: Track where
  "track_example = Track_update (\<lambda>k z. k) (Track_init 7 18 kp_example) 40 0 (- 2) 18 True"

definition lead_example :: LeadMsg where
  "lead_example = \<lparr>lm_x = [50], lm_y = [0], lm_v = [15], lm_a = [0], lm_xStd = [1],
                    lm_yStd = [1], lm_vStd = [1], lm_prob = 0.9\<rparr>"

definition track_mix :: Track where
  "track_mix = (Track_init 7 18 kp_example)
     \<lparr>cnt := 3, meas := Some \<lparr>dRel = 40, yRel = 0.5, vRel = - 2, vLead = 18, measured = True,
                              vLeadK = 18, aLeadK = - 1\<rparr>\<rparr>"

definition lead_mix :: "real \<Rightarrow> LeadMsg" where
  "lead_mix p = \<lparr>lm_x = [41.52], lm_y = [0], lm_v = [18], lm_a = [- 3], lm_xStd = [1],
                  lm_yStd = [1], lm_vStd = [1], lm_prob = p\<rparr>"

definition radard_example :: RadarD where
  "radard_example =
     \<lparr>rd_tracks = [(3, track_example\<lparr>identifier := 3\<rparr>), (7, track_example)],
      rd_kalman_params = kp_example, rd_v_ego = 20, rd_v_ego_hist = [20], rd_maxlen = 1,
      rd_ready = True\<rparr>"

definition frame_example :: RadarData where
  "frame_example =
     \<lparr>points = [\<lparr>trackId = 7, pt_dRel = 40, pt_yRel = 0, pt_vRel = - 2, pt_measured = True\<rparr>,
                \<lparr>trackId = 9, pt_dRel = 60, pt_yRel = 1, pt_vRel = 0, pt_measured = True\<rparr>],
      errors = []\<rparr>"

definition sm_example :: SubMaster where
  "sm_example = \<lparr>updated_carState = True, carState_vEgo = 20, updated_modelV2 = True\<rparr>"

definition track_at :: "int \<Rightarrow> real \<Rightarrow> real \<Rightarrow> real \<Rightarrow> real \<Rightarrow> Track" where
  "track_at i d y v v_ego =
     Track_update (\<lambda>k z. k) (Track_init i (v + v_ego) kp_example) d y v (v + v_ego) True"

definition tracks_low_speed :: "(int \<times> Track) list" where
  "tracks_low_speed = [(1, track_at 1 5 0.2 0 2), (2, track_at 2 10 0 0 2)]"

definition lead_none :: LeadMsg where
  "lead_none = lead_example\<lparr>lm_prob := 0\<rparr>"

text \<open>A model output with 33 samples per array: a straight path \<open>y = 0\<close> reaching 128 m,
  four lane lines reaching 160 m, the inner two at \<open>y = 3\<close> and \<open>y = 1\<close>. \<open>md_straight\<close>
  reports no lane line with confidence, \<open>md_lanes\<close> reports the inner two with 0.9.\<close>

definition lane_line :: "real \<Rightarrow> XYT" where
  "lane_line y = \<lparr>xy_x = map (\<lambda>i. real i * 5) [0..<33], xy_y = replicate 33 y\<rparr>"

definition md_straight :: ModelV2 where
  "md_straight =
     \<lparr>laneLines = [lane_line 5, lane_line 3, lane_line 1, lane_line (- 1)],
      laneLineProbs = [0, 0, 0, 0],
      position = \<lparr>xy_x = map (\<lambda>i. real i * 4) [0..<33], xy_y = replicate 33 0\<rparr>,
      leadsV3 = [lead_none, lead_none]\<rparr>"

definition md_lanes :: ModelV2 where
  "md_lanes = md_straight\<lparr>laneLineProbs := [0, 0.9, 0.9, 0]\<rparr>"

text \<open>A model output at low speed: its path has the full 33 samples but reaches only 32 m,
  at \<open>y = 1\<close>; the lane lines are those of \<open>md_lanes\<close>.\<close>

definition md_near :: ModelV2 where
  "md_near = md_lanes\<lparr>position := \<lparr>xy_x = map real [0..<33], xy_y = replicate 33 1\<rparr>\<rparr>"

definition tracks_near :: "(int \<times> Track) list" where
  "tracks_near = [(1, track_at 1 30 0.5 0 20)]"

text \<open>Scenario 5 of the spec; and two tracks at the same distance from the path, on either
  side of it, followed by a track far to the left.\<close>

definition tracks_split :: "(int \<times> Track) list" where
  "tracks_split = [(1, track_at 1 30 0.5 0 20), (2, track_at 2 30 (- 2.5) 0 20)]"

definition tracks_tie :: "(int \<times> Track) list" where
  "tracks_tie = [(1, track_at 1 30 0.5 0 20), (2, track_at 2 40 (- 0.5) 0 20),
                 (3, track_at 3 50 2.5 0 20)]"

text \<open>The dict that path classification builds on \<open>md_straight\<close> for \<open>track_at i d y v v_ego\<close>.\<close>

definition entry_at :: "int \<Rightarrow> real \<Rightarrow> real \<Rightarrow> real \<Rightarrow> real \<Rightarrow> AdjLead" where
  "entry_at i d y v v_ego =
     \<lparr>adj_ld = \<lparr>ld_dRel = d, ld_yRel = y, ld_vRel = v, ld_vLead = v + v_ego,
                ld_vLeadK = v + v_ego, ld_aLeadK = 0, ld_aLeadTau = 1.5, ld_status = True,
                ld_fcw = False, ld_modelProb = 0, ld_radar = True, ld_radarTrackId = i\<rparr>,
      adj_dPath = - y, adj_vLat = sqrt ((10 * - y)\<^sup>2 + d\<^sup>2)\<rparr>"

text \<open>The dict that path classification builds on \<open>md_near\<close> for the track of
  \<open>tracks_near\<close>.\<close>

definition entry_near :: AdjLead where
  "entry_near = (entry_at 1 30 0.5 0 20)\<lparr>adj_dPath := - 1.5,
                                           adj_vLat := sqrt ((10 * - 1.5)\<^sup>2 + 30\<^sup>2)\<rparr>"


section \<open>Properties\<close>

subsection \<open>Elementary facts\<close>

lemma bindE_Inr: "bindE (Inr v) f = f v"
  by (simp add: bindE_def)

lemma bindE_Inl: "bindE (Inl e) f = Inl e"
  by (simp add: bindE_def)

lemma bindE_eq_Inr: "bindE r f = Inr w \<longleftrightarrow> (\<exists>v. r = Inr v \<and> f v = Inr w)"
  by (cases r) (simp_all add: bindE_def)

lemma attr_Some: "meas c = Some m \<Longrightarrow> attr c field = Inr (field m)"
  by (simp add: attr_def)

lemma idx0_Cons: "idx0 (v # vs) = Inr v"
  by (simp add: idx0_def)


subsection \<open>Track: the decay time constant\<close>

lemma Track_update_obs_aLeadTau:
  "aLeadTau (Track_update_obs kf_step t u) =
     (if attr (Track_update_obs kf_step t u) (\<lambda>m. \<bar>aLeadK m\<bar> \<ge> 0.5) = Inr True
      then aLeadTau t * 0.9 else LEAD_ACCEL_TAU)"
  by (cases u) (auto simp: Track_update_def Let_def attr_def)

lemma Track_update_obs_reset:
  "attr (Track_update_obs kf_step t u) (\<lambda>m. \<bar>aLeadK m\<bar> < 0.5) = Inr True
     \<Longrightarrow> aLeadTau (Track_update_obs kf_step t u) = LEAD_ACCEL_TAU"
  by (cases u) (auto simp: Track_update_def Let_def attr_def split: if_splits)

lemma accel_held_decay:
  "accel_held kf_step t us
     \<Longrightarrow> aLeadTau (Track_updates kf_step t us) = aLeadTau t * 0.9 ^ length us"
proof (induction us arbitrary: t)
  case Nil
  then show ?case by simp
next
  case (Cons u us)
  from Cons.prems have held: "accel_held kf_step (Track_update_obs kf_step t u) us"
    and step: "aLeadTau (Track_update_obs kf_step t u) = aLeadTau t * 0.9"
    by (simp_all add: Track_update_obs_aLeadTau)
  from Cons.IH [OF held] step show ?case by simp
qed

lemma aLeadTau_range_step:
  assumes "0 < aLeadTau t \<and> aLeadTau t \<le> 1.5"
  shows "0 < aLeadTau (Track_update_obs kf_step t u) \<and> aLeadTau (Track_update_obs kf_step t u) \<le> 1.5"
  using assms by (simp add: Track_update_obs_aLeadTau LEAD_ACCEL_TAU_def)

lemma aLeadTau_range_updates:
  "0 < aLeadTau t \<and> aLeadTau t \<le> 1.5
     \<Longrightarrow> 0 < aLeadTau (Track_updates kf_step t us) \<and> aLeadTau (Track_updates kf_step t us) \<le> 1.5"
proof (induction us arbitrary: t)
  case Nil
  then show ?case by simp
next
  case (Cons u us)
  from Cons.IH [OF aLeadTau_range_step [OF Cons.prems]] show ?case by simp
qed

text \<open>
  C5. A track whose time constant is 1.5 (as it is after creation and after every update
  that left \<open>|aLeadK| < 0.5\<close>) has \<open>aLeadTau = 1.5 \<cdot> 0.9^N\<close> after \<open>N\<close> further updates that
  each left \<open>|aLeadK| \<ge> 0.5\<close>; one update that leaves \<open>|aLeadK| < 0.5\<close> sets it to 1.5;
  and from creation on, through any sequence of updates and for any filter step, it stays
  in the interval \<open>(0, 1.5]\<close>.
\<close>

theorem aLeadTau_decay:
  "(aLeadTau t = LEAD_ACCEL_TAU \<longrightarrow> accel_held kf_step t us
      \<longrightarrow> aLeadTau (Track_updates kf_step t us) = 1.5 * 0.9 ^ length us)
   \<and> (attr (Track_update_obs kf_step t u) (\<lambda>m. \<bar>aLeadK m\<bar> < 0.5) = Inr True
      \<longrightarrow> aLeadTau (Track_update_obs kf_step t u) = 1.5)
   \<and> aLeadTau (Track_init i v kp) = 1.5
   \<and> 0 < aLeadTau (Track_updates kf_step (Track_init i v kp) us)
   \<and> aLeadTau (Track_updates kf_step (Track_init i v kp) us) \<le> 1.5"
proof -
  have init: "aLeadTau (Track_init i v kp) = 1.5"
    by (simp add: Track_init_def LEAD_ACCEL_TAU_def)
  have "0 < aLeadTau (Track_init i v kp) \<and> aLeadTau (Track_init i v kp) \<le> 1.5"
    by (simp add: init)
  from aLeadTau_range_updates [OF this] init show ?thesis
    using accel_held_decay [of kf_step t us] Track_update_obs_reset [of kf_step t u]
    by (simp add: LEAD_ACCEL_TAU_def)
qed

text \<open>An instance: a track that has had its first update, then two updates under a filter
  step that reports the acceleration 1, then one under a step that reports 0.2.\<close>

theorem aLeadTau_decay_witness:
  "aLeadTau track_example = LEAD_ACCEL_TAU
   \<and> accel_held (\<lambda>k z. k\<lparr>kf_x_ACCEL := 1\<rparr>) track_example
        [(40, 0, - 2, 18, True), (39, 0, - 2, 18, True)]
   \<and> aLeadTau (Track_updates (\<lambda>k z. k\<lparr>kf_x_ACCEL := 1\<rparr>) track_example
        [(40, 0, - 2, 18, True), (39, 0, - 2, 18, True)]) = 1.5 * 0.9 ^ 2
   \<and> attr (Track_update_obs (\<lambda>k z. k\<lparr>kf_x_ACCEL := 0.2\<rparr>) track_example (40, 0, - 2, 18, True))
        (\<lambda>m. \<bar>aLeadK m\<bar> < 0.5) = Inr True
   \<and> aLeadTau (Track_update_obs (\<lambda>k z. k\<lparr>kf_x_ACCEL := 0.2\<rparr>) track_example
        (40, 0, - 2, 18, True)) = 1.5"
proof -
  have tau: "aLeadTau track_example = LEAD_ACCEL_TAU"
    by (simp add: track_example_def Track_update_def Track_init_def KF1D_init_def Let_def)
  have held: "accel_held (\<lambda>k z. k\<lparr>kf_x_ACCEL := 1\<rparr>) track_example
        [(40, 0, - 2, 18, True), (39, 0, - 2, 18, True)]"
    by (simp add: track_example_def Track_update_def Track_init_def KF1D_init_def Let_def attr_def)
  have low: "attr (Track_update_obs (\<lambda>k z. k\<lparr>kf_x_ACCEL := 0.2\<rparr>) track_example (40, 0, - 2, 18, True))
        (\<lambda>m. \<bar>aLeadK m\<bar> < 0.5) = Inr True"
    by (simp add: track_example_def Track_update_def Track_init_def KF1D_init_def Let_def attr_def)
  note thm1 = aLeadTau_decay [where t = track_example and kf_step = "\<lambda>k z. k\<lparr>kf_x_ACCEL := 1\<rparr>"
      and us = "[(40, 0, - 2, 18, True), (39, 0, - 2, 18, True)]"]
  from thm1 tau held
  have a: "aLeadTau (Track_updates (\<lambda>k z. k\<lparr>kf_x_ACCEL := 1\<rparr>) track_example
        [(40, 0, - 2, 18, True), (39, 0, - 2, 18, True)]) = 1.5 * 0.9 ^ 2"
    by (metis length_Cons list.size(3) numeral_2_eq_2)
  note thm2 = aLeadTau_decay [where t = track_example and kf_step = "\<lambda>k z. k\<lparr>kf_x_ACCEL := 0.2\<rparr>"
      and u = "(40, 0, - 2, 18, True)"]
  from thm2 low
  have b: "aLeadTau (Track_update_obs (\<lambda>k z. k\<lparr>kf_x_ACCEL := 0.2\<rparr>) track_example
        (40, 0, - 2, 18, True)) = 1.5"
    by blast
  from tau held a low b show ?thesis by simp
qed

subsection \<open>Lead records\<close>

text \<open>
  C7. For a vision hypothesis \<open>L\<close> that carries at least one sample of \<open>x\<close>, \<open>y\<close> and
  \<open>v\<close>, the vision-only lead record has \<open>dRel = L.x[0] - 1.52\<close>, \<open>yRel = - L.y[0]\<close>,
  \<open>vRel = L.v[0] - vEgoModel\<close>, \<open>vLead = vLeadK = vEgo + vRel\<close>, \<open>aLeadK = 0\<close>,
  \<open>aLeadTau = 0.3\<close>, \<open>status = true\<close>, \<open>radar = false\<close>, \<open>radarTrackId = -1\<close>,
  \<open>fcw = false\<close> (and \<open>modelProb = L.prob\<close>).
\<close>

theorem vision_only_record:
  assumes "lm_x L = x0 # xs" and "lm_y L = y0 # ys" and "lm_v L = v0 # vs"
  shows "get_RadarState_from_vision L v_ego model_v_ego =
     Inr \<lparr>ld_dRel = x0 - 1.52, ld_yRel = - y0, ld_vRel = v0 - model_v_ego,
          ld_vLead = v_ego + (v0 - model_v_ego), ld_vLeadK = v_ego + (v0 - model_v_ego),
          ld_aLeadK = 0, ld_aLeadTau = 0.3, ld_status = True, ld_fcw = False,
          ld_modelProb = lm_prob L, ld_radar = False, ld_radarTrackId = - 1\<rparr>"
  using assms
  by (simp add: get_RadarState_from_vision_def idx0_def RADAR_TO_CAMERA_def Let_def)

text \<open>An instance, scenario 2 of the spec: \<open>x[0] = 50\<close>, \<open>y[0] = 0\<close>, \<open>v[0] = 15\<close>,
  \<open>prob = 0.9\<close>, \<open>vEgo = vEgoModel = 10\<close>.\<close>

theorem vision_only_record_witness:
  "get_RadarState_from_vision lead_example 10 10 =
     Inr \<lparr>ld_dRel = 48.48, ld_yRel = 0, ld_vRel = 5, ld_vLead = 15, ld_vLeadK = 15,
          ld_aLeadK = 0, ld_aLeadTau = 0.3, ld_status = True, ld_fcw = False,
          ld_modelProb = 0.9, ld_radar = False, ld_radarTrackId = - 1\<rparr>"
  using vision_only_record [where L = lead_example and ?x0.0 = 50 and xs = "[]" and ?y0.0 = 0
      and ys = "[]" and ?v0.0 = 15 and vs = "[]" and v_ego = 10 and model_v_ego = 10]
  by (simp add: lead_example_def)

text \<open>
  C4. For a track \<open>T\<close> that has been updated and a hypothesis \<open>L\<close> that carries \<open>a[0]\<close>
  and \<open>y[0]\<close>, the projected lead record exists and its \<open>aLeadK\<close> is \<open>L.a[0]\<close> when
  \<open>m > 0\<close>, \<open>L.prob > 0.5\<close> and \<open>|T.aLeadK| < |L.a[0]|\<close>, and \<open>T.aLeadK\<close> otherwise.
\<close>

theorem projected_aLeadK:
  assumes "meas T = Some m" and "lm_a L = a0 # ar" and "lm_y L = y0 # ys"
  shows "\<exists>r. get_RadarState2 T model_prob L mix = Inr r \<and>
     ld_aLeadK r = (if mix > 0 \<and> lm_prob L > 0.5 \<and> \<bar>aLeadK m\<bar> < \<bar>a0\<bar> then a0 else aLeadK m)"
  using assms by (simp add: get_RadarState2_def idx0_def)

text \<open>An instance, scenario 6 of the spec: mix mode 1, a track with \<open>aLeadK = -1\<close>, a
  hypothesis with \<open>a[0] = -3\<close>; the record has \<open>aLeadK = -3\<close> at \<open>prob = 0.8\<close> and
  \<open>aLeadK = -1\<close> at \<open>prob = 0.4\<close>.\<close>

theorem projected_aLeadK_witness:
  "(\<exists>r. get_RadarState2 track_mix 0.8 (lead_mix 0.8) 1 = Inr r \<and> ld_aLeadK r = - 3)
   \<and> (\<exists>r. get_RadarState2 track_mix 0.4 (lead_mix 0.4) 1 = Inr r \<and> ld_aLeadK r = - 1)"
  using projected_aLeadK [where T = track_mix and L = "lead_mix 0.8" and ?a0.0 = "- 3" and ar = "[]"
      and ?y0.0 = 0 and ys = "[]" and model_prob = "0.8" and mix = 1]
    projected_aLeadK [where T = track_mix and L = "lead_mix 0.4" and ?a0.0 = "- 3" and ar = "[]"
      and ?y0.0 = 0 and ys = "[]" and model_prob = "0.4" and mix = 1]
  by (simp add: track_mix_def lead_mix_def)

subsection \<open>Interpolation and the Kalman gain table\<close>

lemma interp_hi_le: "interp_hi xv xp \<le> length xp"
  by (induction xp) auto

lemma interp_hi_below: "i < interp_hi xv xp \<Longrightarrow> xp ! i < xv"
proof (induction xp arbitrary: i)
  case Nil
  then show ?case by simp
next
  case (Cons p ps)
  then show ?case by (cases i) (auto split: if_splits)
qed

lemma interp_hi_above: "interp_hi xv xp < length xp \<Longrightarrow> xv \<le> xp ! interp_hi xv xp"
  by (induction xp) (auto split: if_splits)

lemma interp_hi_nth:
  "sorted_wrt (<) xp \<Longrightarrow> j < length xp \<Longrightarrow> interp_hi (xp ! j) xp = j"
proof (induction xp arbitrary: j)
  case Nil
  then show ?case by simp
next
  case (Cons p ps)
  show ?case
  proof (cases j)
    case 0
    then show ?thesis by simp
  next
    case (Suc j')
    with Cons.prems have "p < ps ! j'" and "sorted_wrt (<) ps" and "j' < length ps"
      by auto
    with Cons.IH [of j'] Suc show ?thesis by simp
  qed
qed

lemma blend_bounds:
  fixes xv xl xh fl fh lo up :: real
  assumes "xl < xv" and "xv \<le> xh" and "lo \<le> fl" and "fl \<le> up" and "lo \<le> fh" and "fh \<le> up"
  shows "lo \<le> (xv - xl) * (fh - fl) / (xh - xl) + fl \<and> (xv - xl) * (fh - fl) / (xh - xl) + fl \<le> up"
proof -
  define t where "t = (xv - xl) / (xh - xl)"
  have t0: "0 \<le> t" and t1: "t \<le> 1"
    using assms(1,2) by (simp_all add: t_def)
  have eq: "(xv - xl) * (fh - fl) / (xh - xl) + fl = t * fh + (1 - t) * fl"
    by (simp add: t_def algebra_simps add_divide_distrib diff_divide_distrib)
  have "t * lo \<le> t * fh" and "(1 - t) * lo \<le> (1 - t) * fl"
    and "t * fh \<le> t * up" and "(1 - t) * fl \<le> (1 - t) * up"
    using t0 t1 assms(3-6) by (simp_all add: mult_left_mono)
  moreover have "(1 - t) * lo = lo - t * lo" and "(1 - t) * up = up - t * up"
    by (simp_all add: algebra_simps)
  ultimately show ?thesis unfolding eq by linarith
qed

lemma interp_bounds:
  assumes "xp \<noteq> []" and "length fp = length xp" and "\<forall>f \<in> set fp. lo \<le> f \<and> f \<le> up"
  shows "\<exists>w. interp xv xp fp = Inr w \<and> lo \<le> w \<and> w \<le> up"
proof -
  let ?hi = "interp_hi xv xp"
  have fp: "fp \<noteq> []" using assms(1,2) by auto
  consider "?hi = length xp" | "?hi = 0" "?hi \<noteq> length xp" | "0 < ?hi" "?hi < length xp"
    using interp_hi_le [of xv xp] by linarith
  then show ?thesis
  proof cases
    case 1
    with assms fp show ?thesis
      by (simp add: interp_def idx_last_def Let_def)
  next
    case 2
    with assms fp show ?thesis
      by (cases fp) (simp_all add: interp_def idx0_def Let_def)
  next
    case 3
    then have lowv: "xp ! (?hi - 1) < xv" and hiv: "xv \<le> xp ! ?hi"
      using interp_hi_below [of "?hi - 1" xv xp] interp_hi_above [of xv xp] by simp_all
    have "fp ! ?hi \<in> set fp" and "fp ! (?hi - 1) \<in> set fp"
      using 3 assms(2) by simp_all
    with assms(3) have b: "lo \<le> fp ! (?hi - 1)" "fp ! (?hi - 1) \<le> up" "lo \<le> fp ! ?hi" "fp ! ?hi \<le> up"
      by blast+
    from blend_bounds [OF lowv hiv b] 3 assms(1,2) show ?thesis
      by (simp add: interp_def Let_def)
  qed
qed

lemma interp_at_breakpoint:
  assumes "sorted_wrt (<) xp" and "j < length xp" and "length fp = length xp"
  shows "interp (xp ! j) xp fp = Inr (fp ! j)"
proof (cases j)
  case 0
  with assms show ?thesis
    by (cases fp) (auto simp: interp_def interp_hi_nth idx0_def Let_def)
next
  case (Suc j')
  from assms(1,2) Suc have "xp ! j' < xp ! j"
    by (simp add: sorted_wrt_iff_nth_less)
  moreover from assms(2) have "xp \<noteq> []" by auto
  ultimately show ?thesis using assms Suc
    by (simp add: interp_def interp_hi_nth Let_def)
qed

lemma length_dts: "length dts = 20"
  by (simp add: dts_def)

lemma dts_nth: "j < 20 \<Longrightarrow> dts ! j = real (Suc j) * 0.01"
  by (simp add: dts_def)

lemma sorted_dts: "sorted_wrt (<) dts"
  by (simp add: sorted_wrt_iff_nth_less length_dts dts_nth)

lemma K0_bounds: "\<forall>f \<in> set K0. 0.12287673 \<le> f \<and> f \<le> 0.36200124"
  by (simp add: K0_def)

lemma K1_bounds: "\<forall>f \<in> set K1. 0.26278425 \<le> f \<and> f \<le> 0.29666309"
  by (simp add: K1_def)

text \<open>
  The closed interval on the code. The constructor asserts \<open>0.01 < dt < 0.2\<close>: it fails at both ends
  of the closed interval, which are the table points \<open>k = 1\<close> and \<open>k = 20\<close>.
\<close>

theorem KalmanParams_closed_interval_counterexample:
  "KalmanParams_init 0.01 = Inl AssertionError \<and> KalmanParams_init 0.2 = Inl AssertionError"
  by (simp add: KalmanParams_init_def)

text \<open>
  C6, amended. For every \<open>dt\<close> with \<open>0.01 < dt < 0.2\<close> the constructor returns, with
  \<open>A = [[1, dt], [0, 1]]\<close>, \<open>C = [1, 0]\<close> and gains within the range of their tables; at
  every interior table point \<open>dt = 0.01 \<cdot> k\<close>, \<open>k\<close> in \<open>2..19\<close>, the gains are the
  tabulated \<open>K0[k]\<close>, \<open>K1[k]\<close>; every other \<open>dt\<close> is refused by the assertion.
\<close>

theorem KalmanParams_open_interval:
  "(0.01 < dt \<and> dt < 0.2 \<longrightarrow>
      (\<exists>k0 k1. KalmanParams_init dt =
                  Inr \<lparr>kp_A = [[1, dt], [0, 1]], kp_C = [1, 0], kp_K = [[k0], [k1]]\<rparr>
         \<and> 0.12287673 \<le> k0 \<and> k0 \<le> 0.36200124 \<and> 0.26278425 \<le> k1 \<and> k1 \<le> 0.29666309))
   \<and> (2 \<le> k \<and> k \<le> 19 \<longrightarrow>
      KalmanParams_init (real k * 0.01) =
        Inr \<lparr>kp_A = [[1, real k * 0.01], [0, 1]], kp_C = [1, 0],
             kp_K = [[K0 ! (k - 1)], [K1 ! (k - 1)]]\<rparr>)
   \<and> (\<not> (0.01 < dt \<and> dt < 0.2) \<longrightarrow> KalmanParams_init dt = Inl AssertionError)"
proof (intro conjI impI)
  assume range: "0.01 < dt \<and> dt < 0.2"
  have ne: "dts \<noteq> []" using length_dts by auto
  obtain k0 where k0: "interp dt dts K0 = Inr k0" "0.12287673 \<le> k0" "k0 \<le> 0.36200124"
    using interp_bounds [OF ne _ K0_bounds, of dt] by (auto simp: length_dts K0_def)
  obtain k1 where k1: "interp dt dts K1 = Inr k1" "0.26278425 \<le> k1" "k1 \<le> 0.29666309"
    using interp_bounds [OF ne _ K1_bounds, of dt] by (auto simp: length_dts K1_def)
  from range k0 k1
  show "\<exists>k0 k1. KalmanParams_init dt =
                  Inr \<lparr>kp_A = [[1, dt], [0, 1]], kp_C = [1, 0], kp_K = [[k0], [k1]]\<rparr>
         \<and> 0.12287673 \<le> k0 \<and> k0 \<le> 0.36200124 \<and> 0.26278425 \<le> k1 \<and> k1 \<le> 0.29666309"
    by (simp add: KalmanParams_init_def)
next
  assume k: "2 \<le> k \<and> k \<le> 19"
  then have j20: "k - 1 < 20" and sk: "Suc (k - 1) = k"
    by arith+
  from j20 have j: "k - 1 < length dts"
    by (simp only: length_dts)
  from dts_nth [OF j20] have pt: "real k * 0.01 = dts ! (k - 1)"
    by (simp only: sk)
  have "interp (dts ! (k - 1)) dts K0 = Inr (K0 ! (k - 1))"
    by (rule interp_at_breakpoint [OF sorted_dts j]) (simp add: length_dts K0_def)
  moreover have "interp (dts ! (k - 1)) dts K1 = Inr (K1 ! (k - 1))"
    by (rule interp_at_breakpoint [OF sorted_dts j]) (simp add: length_dts K1_def)
  moreover have "0.01 < real k * 0.01 \<and> real k * 0.01 < 0.2"
    using k by simp
  ultimately show "KalmanParams_init (real k * 0.01) =
        Inr \<lparr>kp_A = [[1, real k * 0.01], [0, 1]], kp_C = [1, 0],
             kp_K = [[K0 ! (k - 1)], [K1 ! (k - 1)]]\<rparr>"
    unfolding KalmanParams_init_def pt [symmetric] by simp
next
  assume "\<not> (0.01 < dt \<and> dt < 0.2)"
  then show "KalmanParams_init dt = Inl AssertionError"
    by (simp add: KalmanParams_init_def)
qed

text \<open>An instance: \<open>dt = 0.05\<close>, the table point \<open>k = 5\<close>, with the gains of the table.\<close>

theorem KalmanParams_open_interval_witness:
  "(0.01 :: real) < 0.05 \<and> (0.05 :: real) < 0.2 \<and> (2 :: nat) \<le> 5 \<and> (5 :: nat) \<le> 19
   \<and> KalmanParams_init 0.05 =
        Inr \<lparr>kp_A = [[1, 0.05], [0, 1]], kp_C = [1, 0], kp_K = [[0.1988689], [0.28555364]]\<rparr>
   \<and> \<not> (0.01 < (0.3 :: real) \<and> (0.3 :: real) < 0.2)
   \<and> KalmanParams_init 0.3 = Inl AssertionError"
  using KalmanParams_open_interval [where dt = "0.3" and k = 5]
    KalmanParams_open_interval [where dt = "0.05" and k = 5]
  by (simp add: K0_def K1_def)

subsection \<open>Cycle orchestrator: the track map follows the radar frame\<close>

lemma keys_delete: "fst ` set (AList.delete k al) = fst ` set al - {k}"
  by (auto simp: AList.delete_eq)

lemma map_of_None_keys: "map_of al k = None \<longleftrightarrow> k \<notin> fst ` set al"
  by (simp add: map_of_eq_None_iff)

lemma keys_fold_update:
  "fst ` set (fold (\<lambda>pt ar. AList.update (f pt) (g pt) ar) pts acc) = fst ` set acc \<union> f ` set pts"
  by (induction pts arbitrary: acc) (auto simp: AList.dom_update)

lemma keys_build_ar_pts: "fst ` set (build_ar_pts pts) = trackId ` set pts"
  by (simp add: build_ar_pts_def keys_fold_update)

lemma keys_fold_delete:
  "fst ` set (fold (\<lambda>ids ts. if map_of ar ids = None then AList.delete ids ts else ts) ks ts)
     = fst ` set ts - {k \<in> set ks. k \<notin> fst ` set ar}"
  by (induction ks arbitrary: ts) (auto simp: keys_delete map_of_None_keys)

lemma keys_evict: "fst ` set (evict ar tracks) = fst ` set tracks \<inter> fst ` set ar"
  by (auto simp: evict_def keys_fold_delete)

lemma upsert_keys:
  "v_ego_hist \<noteq> [] \<Longrightarrow>
     \<exists>ts. upsert kf_step kp v_ego_hist ar tracks = Inr ts
          \<and> fst ` set ts = fst ` set tracks \<union> fst ` set ar"
proof (induction ar arbitrary: tracks)
  case Nil
  then show ?case by simp
next
  case (Cons a ar)
  obtain ids r_dRel r_yRel r_vRel r_measured where a: "a = (ids, (r_dRel, r_yRel, r_vRel, r_measured))"
    by (metis prod_cases5)
  obtain h0 hs where hist: "v_ego_hist = h0 # hs"
    using Cons.prems by (cases v_ego_hist) auto
  define tracks' where "tracks' =
    (if map_of tracks ids = None
     then AList.update ids (Track_init ids (r_vRel + h0) kp) tracks else tracks)"
  have keys': "fst ` set tracks' = insert ids (fst ` set tracks)"
    by (auto simp: tracks'_def AList.dom_update map_of_None_keys)
  then obtain t where t: "map_of tracks' ids = Some t"
    by (metis insertI1 map_of_None_keys not_Some_eq)
  define tracks'' where "tracks'' =
    AList.update ids (Track_update kf_step t r_dRel r_yRel r_vRel (r_vRel + h0) r_measured) tracks'"
  have keys'': "fst ` set tracks'' = insert ids (fst ` set tracks)"
    by (auto simp: tracks''_def AList.dom_update keys')
  from Cons.IH [OF Cons.prems, of tracks''] obtain ts where
    ts: "upsert kf_step kp v_ego_hist ar tracks'' = Inr ts"
      "fst ` set ts = fst ` set tracks'' \<union> fst ` set ar"
    by blast
  have "upsert kf_step kp v_ego_hist (a # ar) tracks = upsert kf_step kp v_ego_hist ar tracks''"
    using t by (simp add: a hist idx0_def bindE_def Let_def tracks'_def [symmetric] tracks''_def)
  with ts keys'' show ?case by (auto simp: a)
qed

lemma deque_append_nonempty:
  "length q \<le> maxlen \<Longrightarrow> q \<noteq> [] \<Longrightarrow>
     deque_append maxlen q v \<noteq> [] \<and> length (deque_append maxlen q v) \<le> maxlen"
  by (cases q) (auto simp: deque_append_def)

text \<open>
  C1. From any state of the orchestrator whose ego-velocity history is a non-empty deque
  within its bound (as the constructor leaves it), with any track map, and for any radar
  frame, the cycle update returns, and the set of identifiers of the track map afterwards is
  exactly the set of track identifiers of the frame; the history is again non-empty and
  within its bound.
\<close>

theorem track_ids_follow_frame:
  assumes "rd_v_ego_hist self \<noteq> []" and "length (rd_v_ego_hist self) \<le> rd_maxlen self"
  shows "\<exists>self'. RadarD_update kf_step self sm rr = Inr self'
     \<and> fst ` set (rd_tracks self') = trackId ` set (case rr of None \<Rightarrow> [] | Some d \<Rightarrow> points d)
     \<and> rd_v_ego_hist self' \<noteq> [] \<and> length (rd_v_ego_hist self') \<le> rd_maxlen self'"
proof -
  define radar_points where "radar_points = (case rr of None \<Rightarrow> [] | Some d \<Rightarrow> points d)"
  define hist where "hist =
    (if updated_carState sm
     then deque_append (rd_maxlen self) (rd_v_ego_hist self) (carState_vEgo sm)
     else rd_v_ego_hist self)"
  have hist: "hist \<noteq> [] \<and> length hist \<le> rd_maxlen self"
    using assms deque_append_nonempty [of "rd_v_ego_hist self" "rd_maxlen self" "carState_vEgo sm"]
    by (simp add: hist_def)
  define ar_pts where "ar_pts = build_ar_pts radar_points"
  from upsert_keys [of hist kf_step "rd_kalman_params self" ar_pts "evict ar_pts (rd_tracks self)"] hist
  obtain ts where ts: "upsert kf_step (rd_kalman_params self) hist ar_pts (evict ar_pts (rd_tracks self)) = Inr ts"
    "fst ` set ts = fst ` set (evict ar_pts (rd_tracks self)) \<union> fst ` set ar_pts"
    by blast
  then have "fst ` set ts = trackId ` set radar_points"
    by (auto simp: keys_evict ar_pts_def keys_build_ar_pts)
  with ts(1) hist show ?thesis
    by (auto simp: RadarD_update_def Let_def bindE_def hist_def ar_pts_def radar_points_def)
qed

text \<open>An instance: a map holding the tracks 3 and 7, a frame holding the points 7 and 9.\<close>

theorem track_ids_follow_frame_witness:
  "rd_v_ego_hist radard_example \<noteq> []
   \<and> length (rd_v_ego_hist radard_example) \<le> rd_maxlen radard_example
   \<and> fst ` set (rd_tracks radard_example) = {3, 7}
   \<and> (\<exists>self'. RadarD_update (\<lambda>k z. k) radard_example sm_example (Some frame_example) = Inr self'
        \<and> fst ` set (rd_tracks self') = {7, 9})"
  using track_ids_follow_frame [where self = radard_example and kf_step = "\<lambda>k z. k"
      and sm = sm_example and rr = "Some frame_example"]
  by (auto simp: radard_example_def frame_example_def)

text \<open>Every track of the map that the cycle update leaves has been updated: the selector and
  the path classification never meet a track without its measured attributes.\<close>

lemma update_entry:
  "distinct (map fst al) \<Longrightarrow> (i, t) \<in> set (AList.update k v al)
     \<Longrightarrow> (i, t) = (k, v) \<or> ((i, t) \<in> set al \<and> i \<noteq> k)"
  by (induction al) (force split: if_splits)+

lemma Track_update_meas: "meas (Track_update kf_step t d y v vl msrd) \<noteq> None"
  by (simp add: Track_update_def Let_def)

lemma upsert_updated:
  assumes "distinct (map fst tracks)" and "upsert kf_step kp hist ar tracks = Inr ts"
  shows "\<forall>(i, t) \<in> set ts. meas t \<noteq> None \<or> ((i, t) \<in> set tracks \<and> i \<notin> fst ` set ar)"
  using assms
proof (induction ar arbitrary: tracks)
  case Nil
  then show ?case by auto
next
  case (Cons a ar)
  obtain ids r_dRel r_yRel r_vRel r_measured where a: "a = (ids, (r_dRel, r_yRel, r_vRel, r_measured))"
    by (metis prod_cases5)
  from Cons.prems(2) obtain h0 where h0: "idx0 hist = Inr h0"
    by (auto simp: a bindE_eq_Inr)
  define tracks' where "tracks' =
    (if map_of tracks ids = None
     then AList.update ids (Track_init ids (r_vRel + h0) kp) tracks else tracks)"
  from Cons.prems(2) h0 obtain t0 where t0: "map_of tracks' ids = Some t0"
    by (auto simp: a bindE_eq_Inr Let_def tracks'_def split: option.splits)
  define u where "u = Track_update kf_step t0 r_dRel r_yRel r_vRel (r_vRel + h0) r_measured"
  have rest: "upsert kf_step kp hist ar (AList.update ids u tracks') = Inr ts"
    using Cons.prems(2) h0 t0
    by (simp add: a bindE_Inr Let_def tracks'_def [symmetric] u_def)
  have d': "distinct (map fst tracks')"
    using Cons.prems(1) by (simp add: tracks'_def AList.distinct_update)
  then have d'': "distinct (map fst (AList.update ids u tracks'))"
    by (simp add: AList.distinct_update)
  have old: "(i, t) \<in> set tracks" if "(i, t) \<in> set tracks'" "i \<noteq> ids" for i t
    using that update_entry [OF Cons.prems(1), of i t ids]
    by (auto simp: tracks'_def split: if_splits)
  have "meas t \<noteq> None \<or> ((i, t) \<in> set tracks \<and> i \<notin> fst ` set (a # ar))"
    if it: "(i, t) \<in> set ts" for i t
  proof (cases "meas t = None")
    case False
    then show ?thesis by simp
  next
    case True
    with Cons.IH [OF d'' rest] it
    have in'': "(i, t) \<in> set (AList.update ids u tracks')" and notin: "i \<notin> fst ` set ar"
      by auto
    from update_entry [OF d' in''] have "(i, t) = (ids, u) \<or> ((i, t) \<in> set tracks' \<and> i \<noteq> ids)" .
    then show ?thesis
    proof
      assume "(i, t) = (ids, u)"
      with True Track_update_meas [of kf_step t0 r_dRel r_yRel r_vRel "r_vRel + h0" r_measured]
      show ?thesis by (simp add: u_def)
    next
      assume "(i, t) \<in> set tracks' \<and> i \<noteq> ids"
      with old notin show ?thesis
        by (auto simp: a)
    qed
  qed
  then show ?case by blast
qed

lemma distinct_evict: "distinct (map fst tracks) \<Longrightarrow> distinct (map fst (evict ar tracks))"
proof -
  have "distinct (map fst ts)
      \<Longrightarrow> distinct (map fst (fold (\<lambda>ids ts. if map_of ar ids = None then AList.delete ids ts else ts) ks ts))"
    for ks and ts :: "(int \<times> Track) list"
    by (induction ks arbitrary: ts) (simp_all add: AList.distinct_delete)
  then show "distinct (map fst tracks) \<Longrightarrow> distinct (map fst (evict ar tracks))"
    by (simp add: evict_def)
qed

lemma RadarD_update_tracks_updated:
  assumes "distinct (map fst (rd_tracks self))" and "RadarD_update kf_step self sm rr = Inr self'"
  shows "tracks_updated (rd_tracks self')"
proof -
  define ar_pts where "ar_pts = build_ar_pts (case rr of None \<Rightarrow> [] | Some d \<Rightarrow> points d)"
  from assms(2) obtain kp hist where
    ups: "upsert kf_step kp hist ar_pts (evict ar_pts (rd_tracks self)) = Inr (rd_tracks self')"
    by (auto simp: RadarD_update_def Let_def bindE_eq_Inr ar_pts_def split: if_splits)
  have "meas t \<noteq> None" if "(i, t) \<in> set (rd_tracks self')" for i t
  proof (rule ccontr)
    assume "\<not> meas t \<noteq> None"
    with upsert_updated [OF distinct_evict [OF assms(1)] ups] that
    have "(i, t) \<in> set (evict ar_pts (rd_tracks self))" and "i \<notin> fst ` set ar_pts"
      by auto
    then have "i \<in> fst ` set (evict ar_pts (rd_tracks self))" and "i \<notin> fst ` set ar_pts"
      by (auto intro: rev_image_eqI)
    then show False
      by (simp add: keys_evict)
  qed
  then show ?thesis
    by (auto simp: tracks_updated_def list_all_iff)
qed

subsection \<open>Lead selector\<close>

lemma mapE_keyed:
  "\<forall>c \<in> set cs. \<exists>p. f c = Inr p
     \<Longrightarrow> \<exists>ps. mapE (\<lambda>c. bindE (f c) (\<lambda>p. Inr (p, c))) cs = Inr ps \<and> map snd ps = cs
           \<and> (\<forall>(p, c) \<in> set ps. f c = Inr p)"
proof (induction cs)
  case Nil
  then show ?case by simp
next
  case (Cons c cs)
  then obtain p ps where "f c = Inr p"
    and "mapE (\<lambda>c. bindE (f c) (\<lambda>p. Inr (p, c))) cs = Inr ps" and "map snd ps = cs"
    and "\<forall>(p, c) \<in> set ps. f c = Inr p"
    by auto
  then show ?case by (simp add: bindE_def)
qed

lemma filterE_total:
  "\<forall>c \<in> set cs. f c = Inr (g c) \<Longrightarrow> filterE f cs = Inr (filter g cs)"
  by (induction cs) (simp_all add: bindE_def)

lemma max_from_in: "max_from kc rest \<in> snd ` set (kc # rest)"
proof (induction rest arbitrary: kc)
  case Nil
  then show ?case by (cases kc) simp
next
  case (Cons a rest)
  obtain bk b where kc: "kc = (bk, b)" by (cases kc)
  obtain k c where a: "a = (k, c)" by (cases a)
  from Cons [of "(k, c)"] Cons [of "(bk, b)"] show ?case
    by (auto simp: kc a)
qed

lemma tracks_updated_meas:
  "tracks_updated tracks \<Longrightarrow> c \<in> snd ` set tracks \<Longrightarrow> \<exists>m. meas c = Some m"
  by (auto simp: tracks_updated_def list_all_iff)

lemma prob_total:
  "meas c = Some m \<Longrightarrow> lead_ok lead \<Longrightarrow> \<exists>p. prob v_ego lead off c = Inr p"
  by (cases "lm_xStd lead"; cases "lm_y lead"; cases "lm_yStd lead"; cases "lm_v lead";
      cases "lm_vStd lead")
     (simp_all add: prob_def lead_ok_def attr_def idx0_def bindE_def Let_def)

lemma get_RadarState2_total:
  "meas c = Some m \<Longrightarrow> lead_ok lead \<Longrightarrow>
     \<exists>r. get_RadarState2 c p lead mix = Inr r \<and> ld_status r \<and> ld_dRel r = dRel m"
  by (cases "lm_a lead"; cases "lm_y lead")
     (simp_all add: get_RadarState2_def lead_ok_def idx0_def)

lemma get_RadarState_from_vision_total:
  "lead_ok lead \<Longrightarrow> \<exists>r. get_RadarState_from_vision lead v_ego mv = Inr r \<and> ld_status r"
  by (cases "lm_x lead"; cases "lm_y lead"; cases "lm_v lead")
     (simp_all add: get_RadarState_from_vision_def lead_ok_def idx0_def Let_def)

lemma match_vision_to_track_total:
  assumes "tracks \<noteq> []" and "tracks_updated tracks" and "lead_ok lead"
  shows "\<exists>r. match_vision_to_track v_ego lead tracks = Inr r
            \<and> (\<forall>t. r = Some t \<longrightarrow> t \<in> snd ` set tracks)"
proof -
  obtain x0 xs where x: "lm_x lead = x0 # xs"
    using assms(3) by (cases "lm_x lead") (auto simp: lead_ok_def)
  obtain v0 vs where v: "lm_v lead = v0 # vs"
    using assms(3) by (cases "lm_v lead") (auto simp: lead_ok_def)
  let ?off = "x0 - RADAR_TO_CAMERA"
  have "\<forall>c \<in> set (map snd tracks). \<exists>p. prob v_ego lead ?off c = Inr p"
    using tracks_updated_meas [OF assms(2)] prob_total [OF _ assms(3)] by fastforce
  from mapE_keyed [OF this] obtain ps where
    ps: "mapE (\<lambda>c. bindE (prob v_ego lead ?off c) (\<lambda>p. Inr (p, c))) (map snd tracks) = Inr ps"
      "map snd ps = map snd tracks"
    by blast
  from ps(2) assms(1) obtain kc rest where kcs: "ps = kc # rest"
    by (cases ps) auto
  define t where "t = max_from kc rest"
  have "t \<in> snd ` set ps"
    unfolding t_def kcs by (rule max_from_in)
  then have tin: "t \<in> snd ` set tracks"
    using ps(2) by (metis list.set_map)
  then obtain m where m: "meas t = Some m"
    using tracks_updated_meas [OF assms(2)] by blast
  have "max_keyed ps = Inr t"
    by (simp add: max_keyed_def kcs t_def)
  with ps(1) m tin assms(1) show ?thesis
    by (simp add: match_vision_to_track_def x v idx0_def bindE_def Let_def attr_def)
qed

lemma min_from_split:
  assumes "\<forall>(k', c') \<in> set pre. bk < k'" and "\<forall>(k', c') \<in> set post. bk \<le> k'"
  shows "\<exists>pre' k c post'. pre @ (bk, b) # post @ rest = pre' @ (k, c) # post'
           \<and> min_from (bk, b) rest = c
           \<and> (\<forall>(k', c') \<in> set pre'. k < k') \<and> (\<forall>(k', c') \<in> set post'. k \<le> k')"
  using assms
proof (induction rest arbitrary: pre bk b post)
  case Nil
  then show ?case by auto
next
  case (Cons a rest)
  obtain k c where a: "a = (k, c)" by (cases a)
  show ?case
  proof (cases "k < bk")
    case True
    have "\<forall>(k', c') \<in> set (pre @ (bk, b) # post). k < k'"
      using Cons.prems True by fastforce
    from Cons.IH [OF this, of "[]" c] True show ?thesis
      by (simp add: a)
  next
    case False
    have "\<forall>(k', c') \<in> set (post @ [(k, c)]). bk \<le> k'"
      using Cons.prems(2) False by auto
    from Cons.IH [OF Cons.prems(1) this, of b] False show ?thesis
      by (simp add: a)
  qed
qed

lemma min_keyed_split:
  assumes "kcs \<noteq> []"
  shows "\<exists>pre k c post. kcs = pre @ (k, c) # post \<and> min_keyed kcs = Inr c
           \<and> (\<forall>(k', c') \<in> set pre. k < k') \<and> (\<forall>(k', c') \<in> set post. k \<le> k')"
proof -
  from assms obtain bk b rest where kcs: "kcs = (bk, b) # rest"
    by (cases kcs) auto
  from min_from_split [of "[]" bk "[]" b rest] show ?thesis
    by (simp add: kcs min_keyed_def)
qed

lemma potential_low_speed_lead_updated:
  "meas c = Some m \<Longrightarrow>
     potential_low_speed_lead c v_ego =
       Inr (\<bar>yRel m\<bar> < 1.0 \<and> v_ego < 4 \<and> 0.75 < dRel m \<and> dRel m < 25)"
  by (simp add: potential_low_speed_lead_def V_EGO_STATIONARY_def)

lemma filterE_low_speed:
  assumes "tracks_updated tracks"
  shows "filterE (\<lambda>c. potential_low_speed_lead c v_ego) (map snd tracks)
           = Inr (low_speed_tracks v_ego tracks)"
  unfolding low_speed_tracks_def
proof (rule filterE_total, rule ballI)
  fix c assume "c \<in> set (map snd tracks)"
  then obtain m where "meas c = Some m"
    using tracks_updated_meas [OF assms] by auto
  then show "potential_low_speed_lead c v_ego =
     Inr (case meas c of None \<Rightarrow> False
          | Some m \<Rightarrow> \<bar>yRel m\<bar> < 1.0 \<and> v_ego < 4 \<and> 0.75 < dRel m \<and> dRel m < 25)"
    by (simp add: potential_low_speed_lead_updated)
qed

lemma low_speed_tracks_meas:
  "c \<in> set (low_speed_tracks v_ego tracks) \<Longrightarrow> \<exists>m. meas c = Some m"
  by (auto simp: low_speed_tracks_def split: option.splits)

text \<open>The record before the low-speed override is what the selector returns with the
  override off: the bare \<^verbatim>\<open>{'status': False}\<close> or a full record with status true.\<close>

lemma get_lead_base:
  assumes "tracks_updated tracks" and "lead_ok lead"
  shows "\<exists>base. get_lead v_ego ready tracks lead mv False mix = Inr base
           \<and> (base = StatusOnly False \<or> (\<exists>r. base = Full r \<and> ld_status r))"
proof (cases "length tracks > 0 \<and> ready \<and> lm_prob lead > 0.5")
  case True
  then have "tracks \<noteq> []" by auto
  from match_vision_to_track_total [OF this assms, of v_ego] obtain r where
    r: "match_vision_to_track v_ego lead tracks = Inr r" "\<forall>t. r = Some t \<longrightarrow> t \<in> snd ` set tracks"
    by blast
  show ?thesis
  proof (cases r)
    case None
    with r True get_RadarState_from_vision_total [OF assms(2), of v_ego mv] show ?thesis
      by (auto simp: get_lead_def bindE_def)
  next
    case (Some t)
    with r(2) obtain m where "meas t = Some m"
      using tracks_updated_meas [OF assms(1)] by blast
    from get_RadarState2_total [OF this assms(2), of "lm_prob lead" mix] Some r True show ?thesis
      by (auto simp: get_lead_def bindE_def)
  qed
next
  case False
  with get_RadarState_from_vision_total [OF assms(2), of v_ego mv] show ?thesis
    by (auto simp: get_lead_def bindE_def)
qed

text \<open>Lines 279 to 286 as a function of the record before the override.\<close>

lemma get_lead_override:
  "get_lead v_ego ready tracks lead mv True mix =
     bindE (get_lead v_ego ready tracks lead mv False mix) (\<lambda>lead_dict.
       bindE (filterE (\<lambda>c. potential_low_speed_lead c v_ego) (map snd tracks)) (\<lambda>lst.
         if length lst > 0 then
           bindE (mapE (\<lambda>c. bindE (attr c dRel) (\<lambda>k. Inr (k, c))) lst) (\<lambda>keyed.
           bindE (min_keyed keyed) (\<lambda>closest_track.
           bindE (if \<not> lead_status lead_dict then Inr True
                  else bindE (attr closest_track dRel) (\<lambda>c_dRel.
                       bindE (lead_dRel lead_dict) (\<lambda>l_dRel. Inr (c_dRel < l_dRel)))) (\<lambda>closer.
             if closer
             then bindE (get_RadarState2 closest_track (lm_prob lead) lead mix) (\<lambda>r. Inr (Full r))
             else Inr lead_dict)))
         else Inr lead_dict))"
  unfolding get_lead_def bindE_def
  by (simp split: sum.splits)

lemma get_lead_with_override:
  assumes "tracks_updated tracks" and "lead_ok lead"
    and "get_lead v_ego ready tracks lead mv False mix = Inr base"
  shows "(low_speed_tracks v_ego tracks = [] \<longrightarrow>
            get_lead v_ego ready tracks lead mv True mix = Inr base)
     \<and> (low_speed_tracks v_ego tracks \<noteq> [] \<longrightarrow>
          (\<exists>pre c post m rc. low_speed_tracks v_ego tracks = pre @ c # post
             \<and> meas c = Some m
             \<and> (\<forall>c' \<in> set pre. \<exists>m'. meas c' = Some m' \<and> dRel m < dRel m')
             \<and> (\<forall>c' \<in> set post. \<exists>m'. meas c' = Some m' \<and> dRel m \<le> dRel m')
             \<and> get_RadarState2 c (lm_prob lead) lead mix = Inr rc
             \<and> get_lead v_ego ready tracks lead mv True mix =
                 Inr (if (case base of StatusOnly b \<Rightarrow> \<not> b
                          | Full r \<Rightarrow> \<not> ld_status r \<or> dRel m < ld_dRel r)
                      then Full rc else base)))"
proof (intro conjI impI)
  assume "low_speed_tracks v_ego tracks = []"
  then show "get_lead v_ego ready tracks lead mv True mix = Inr base"
    by (simp add: get_lead_override assms(3) filterE_low_speed [OF assms(1)] bindE_Inr)
next
  let ?lst = "low_speed_tracks v_ego tracks"
  assume ne: "?lst \<noteq> []"
  have "\<forall>c \<in> set ?lst. \<exists>k. attr c dRel = Inr k"
    using low_speed_tracks_meas by (fastforce simp: attr_def)
  from mapE_keyed [OF this] obtain keyed where
    keyed: "mapE (\<lambda>c. bindE (attr c dRel) (\<lambda>k. Inr (k, c))) ?lst = Inr keyed"
      "map snd keyed = ?lst" "\<forall>(k, c) \<in> set keyed. attr c dRel = Inr k"
    by blast
  then have "keyed \<noteq> []" using ne by auto
  from min_keyed_split [OF this] obtain kpre k c kpost where
    split: "keyed = kpre @ (k, c) # kpost" "min_keyed keyed = Inr c"
      "\<forall>(k', c') \<in> set kpre. k < k'" "\<forall>(k', c') \<in> set kpost. k \<le> k'"
    by blast
  have lst: "?lst = map snd kpre @ c # map snd kpost"
    using keyed(2) split(1) by simp
  have keyed_meas: "\<exists>m'. meas c' = Some m' \<and> dRel m' = k'" if "(k', c') \<in> set keyed" for k' c'
    using keyed(3) that by (auto simp: attr_def split: option.splits)
  from keyed_meas [of k c] obtain m where m: "meas c = Some m" "dRel m = k"
    by (auto simp: split(1))
  have pre: "\<forall>c' \<in> set (map snd kpre). \<exists>m'. meas c' = Some m' \<and> dRel m < dRel m'"
    using split(1,3) keyed_meas m(2) by fastforce
  have post: "\<forall>c' \<in> set (map snd kpost). \<exists>m'. meas c' = Some m' \<and> dRel m \<le> dRel m'"
    using split(1,4) keyed_meas m(2) by fastforce
  from get_RadarState2_total [OF m(1) assms(2), of "lm_prob lead" mix] obtain rc where
    rc: "get_RadarState2 c (lm_prob lead) lead mix = Inr rc"
    by blast
  have "get_lead v_ego ready tracks lead mv True mix =
      Inr (if (case base of StatusOnly b \<Rightarrow> \<not> b | Full r \<Rightarrow> \<not> ld_status r \<or> dRel m < ld_dRel r)
           then Full rc else base)"
    using ne get_lead_base [OF assms(1,2), of v_ego ready mv mix]
    by (cases base)
       (auto simp: get_lead_override assms(3) filterE_low_speed [OF assms(1)] keyed(1) split(2)
          rc bindE_Inr attr_Some [OF m(1)])
  with lst m(1) pre post rc
  show "\<exists>pre c post m rc. ?lst = pre @ c # post
             \<and> meas c = Some m
             \<and> (\<forall>c' \<in> set pre. \<exists>m'. meas c' = Some m' \<and> dRel m < dRel m')
             \<and> (\<forall>c' \<in> set post. \<exists>m'. meas c' = Some m' \<and> dRel m \<le> dRel m')
             \<and> get_RadarState2 c (lm_prob lead) lead mix = Inr rc
             \<and> get_lead v_ego ready tracks lead mv True mix =
                 Inr (if (case base of StatusOnly b \<Rightarrow> \<not> b
                          | Full r \<Rightarrow> \<not> ld_status r \<or> dRel m < ld_dRel r)
                      then Full rc else base)"
    by blast
qed

text \<open>
  C2. On a map of updated tracks and a hypothesis that carries its samples, the selector with
  the low-speed override on first forms the record it would return with the override off.
  The qualifying tracks are those with \<open>|yRel| < 1.0\<close>, \<open>vEgo < 4.0\<close> and
  \<open>0.75 < dRel < 25\<close>. With none, that record is returned unchanged. Otherwise the chosen
  track has the smallest \<open>dRel\<close> among them (the first such in map order), and its projected
  record replaces the current record exactly when the current record has status false or the
  track's \<open>dRel\<close> is strictly smaller than the record's \<open>dRel\<close>.
\<close>

theorem low_speed_override_rule:
  assumes "tracks_updated tracks" and "lead_ok lead"
  shows "\<exists>base. get_lead v_ego ready tracks lead mv False mix = Inr base
     \<and> (low_speed_tracks v_ego tracks = [] \<longrightarrow>
            get_lead v_ego ready tracks lead mv True mix = Inr base)
     \<and> (low_speed_tracks v_ego tracks \<noteq> [] \<longrightarrow>
          (\<exists>pre c post m rc. low_speed_tracks v_ego tracks = pre @ c # post
             \<and> meas c = Some m
             \<and> (\<forall>c' \<in> set pre. \<exists>m'. meas c' = Some m' \<and> dRel m < dRel m')
             \<and> (\<forall>c' \<in> set post. \<exists>m'. meas c' = Some m' \<and> dRel m \<le> dRel m')
             \<and> get_RadarState2 c (lm_prob lead) lead mix = Inr rc
             \<and> get_lead v_ego ready tracks lead mv True mix =
                 Inr (if (case base of StatusOnly b \<Rightarrow> \<not> b
                          | Full r \<Rightarrow> \<not> ld_status r \<or> dRel m < ld_dRel r)
                      then Full rc else base)))"
proof -
  from get_lead_base [OF assms, of v_ego ready mv mix] obtain base where
    base: "get_lead v_ego ready tracks lead mv False mix = Inr base"
    by blast
  from get_lead_with_override [OF assms base] base show ?thesis
    by blast
qed

text \<open>An instance, scenario 4 of the spec: \<open>vEgo = 2\<close>, a hypothesis of probability 0,
  the tracks A (\<open>dRel = 5\<close>, \<open>yRel = 0.2\<close>) and B (\<open>dRel = 10\<close>, \<open>yRel = 0\<close>). Both
  qualify, the record before the override is the bare one, and the selector returns the
  record of A.\<close>

theorem low_speed_override_rule_witness:
  "tracks_updated tracks_low_speed \<and> lead_ok lead_none
   \<and> low_speed_tracks 2 tracks_low_speed = [track_at 1 5 0.2 0 2, track_at 2 10 0 0 2]
   \<and> get_lead 2 True tracks_low_speed lead_none 2 False 0 = Inr (StatusOnly False)
   \<and> get_lead 2 True tracks_low_speed lead_none 2 True 0 =
       Inr (Full \<lparr>ld_dRel = 5, ld_yRel = 0.2, ld_vRel = 0, ld_vLead = 2, ld_vLeadK = 2,
                  ld_aLeadK = 0, ld_aLeadTau = 1.5, ld_status = True, ld_fcw = False,
                  ld_modelProb = 0, ld_radar = True, ld_radarTrackId = 1\<rparr>)"
proof -
  have wf: "tracks_updated tracks_low_speed" "lead_ok lead_none"
    by (simp_all add: tracks_updated_def tracks_low_speed_def track_at_def Track_update_def
        Let_def lead_ok_def lead_none_def lead_example_def)
  have lst: "low_speed_tracks 2 tracks_low_speed = [track_at 1 5 0.2 0 2, track_at 2 10 0 0 2]"
    by (simp add: low_speed_tracks_def tracks_low_speed_def track_at_def Track_update_def Let_def)
  have off: "get_lead 2 True tracks_low_speed lead_none 2 False 0 = Inr (StatusOnly False)"
    by (simp add: get_lead_def bindE_def tracks_low_speed_def lead_none_def lead_example_def)
  have rc: "get_RadarState2 (track_at 1 5 0.2 0 2) 0 lead_none 0 =
       Inr \<lparr>ld_dRel = 5, ld_yRel = 0.2, ld_vRel = 0, ld_vLead = 2, ld_vLeadK = 2,
            ld_aLeadK = 0, ld_aLeadTau = 1.5, ld_status = True, ld_fcw = False,
            ld_modelProb = 0, ld_radar = True, ld_radarTrackId = 1\<rparr>"
    by (simp add: get_RadarState2_def track_at_def Track_update_def Track_init_def KF1D_init_def
        Let_def LEAD_ACCEL_TAU_def is_potential_fcw_def)
  have p0: "lm_prob lead_none = 0"
    by (simp add: lead_none_def)
  have m1: "\<exists>m. meas (track_at 1 5 0.2 0 2) = Some m \<and> dRel m = 5"
    and m2: "\<exists>m. meas (track_at 2 10 0 0 2) = Some m \<and> dRel m = 10"
    by (simp_all add: track_at_def Track_update_def Let_def)
  from low_speed_override_rule [OF wf, of 2 True 2 0] off lst
  obtain pre c post m rc' where
    split: "[track_at 1 5 0.2 0 2, track_at 2 10 0 0 2] = pre @ c # post"
    and m: "meas c = Some m"
    and pre: "\<forall>c' \<in> set pre. \<exists>m'. meas c' = Some m' \<and> dRel m < dRel m'"
    and post: "\<forall>c' \<in> set post. \<exists>m'. meas c' = Some m' \<and> dRel m \<le> dRel m'"
    and rc': "get_RadarState2 c (lm_prob lead_none) lead_none 0 = Inr rc'"
    and res: "get_lead 2 True tracks_low_speed lead_none 2 True 0 = Inr (Full rc')"
    by auto
  have "c = track_at 1 5 0.2 0 2"
  proof (cases pre)
    case Nil
    with split show ?thesis by simp
  next
    case (Cons a pre')
    with split have a: "a = track_at 1 5 0.2 0 2" and "pre' @ c # post = [track_at 2 10 0 0 2]"
      by simp_all
    then have "c = track_at 2 10 0 0 2"
      by (cases pre') simp_all
    with pre Cons a m m1 m2 show ?thesis by auto
  qed
  with rc' rc p0 res have "get_lead 2 True tracks_low_speed lead_none 2 True 0 =
       Inr (Full \<lparr>ld_dRel = 5, ld_yRel = 0.2, ld_vRel = 0, ld_vLead = 2, ld_vLeadK = 2,
                  ld_aLeadK = 0, ld_aLeadTau = 1.5, ld_status = True, ld_fcw = False,
                  ld_modelProb = 0, ld_radar = True, ld_radarTrackId = 1\<rparr>)"
    by simp
  with wf lst off show ?thesis by simp
qed

text \<open>
  C9. On a map of updated tracks (the empty map included) and a hypothesis that carries its
  samples, the selector returns a record for every ego velocity, readiness flag, probability,
  override flag and mix mode. The two guards matter: association on an empty map raises
  ValueError, and reading \<open>dRel\<close> from the bare record raises KeyError; the selector
  reaches neither.
\<close>

theorem get_lead_total:
  assumes "tracks_updated tracks" and "lead_ok lead"
  shows "(\<exists>r. get_lead v_ego ready tracks lead mv low_speed_override mix = Inr r)
     \<and> match_vision_to_track v_ego lead [] = Inl ValueError
     \<and> lead_dRel (StatusOnly False) = Inl KeyError"
proof -
  from get_lead_base [OF assms, of v_ego ready mv mix] obtain base where
    base: "get_lead v_ego ready tracks lead mv False mix = Inr base"
    by blast
  have "\<exists>r. get_lead v_ego ready tracks lead mv True mix = Inr r"
    using get_lead_with_override [OF assms base]
    by (cases "low_speed_tracks v_ego tracks = []") auto
  with base have "\<exists>r. get_lead v_ego ready tracks lead mv low_speed_override mix = Inr r"
    by (cases low_speed_override) auto
  moreover from assms(2) have "match_vision_to_track v_ego lead [] = Inl ValueError"
    by (cases "lm_x lead") (simp_all add: match_vision_to_track_def lead_ok_def idx0_def bindE_def)
  ultimately show ?thesis by simp
qed

text \<open>An instance: the empty track map with a confident hypothesis (the vision-only record),
  and the two tracks of scenario 4 with a hypothesis of probability 0.\<close>

theorem get_lead_total_witness:
  "tracks_updated [] \<and> lead_ok lead_example
   \<and> (\<exists>r. get_lead 10 True [] lead_example 10 True 0 = Inr r)
   \<and> tracks_updated tracks_low_speed \<and> lead_ok lead_none
   \<and> (\<exists>r. get_lead 2 False tracks_low_speed lead_none 2 True 0 = Inr r)"
proof -
  have wf0: "tracks_updated []" "lead_ok lead_example"
    by (simp_all add: tracks_updated_def lead_ok_def lead_example_def)
  have wf1: "tracks_updated tracks_low_speed" "lead_ok lead_none"
    by (simp_all add: tracks_updated_def tracks_low_speed_def track_at_def Track_update_def
        Let_def lead_ok_def lead_none_def lead_example_def)
  from get_lead_total [OF wf0, of 10 True 10 True 0] get_lead_total [OF wf1, of 2 False 2 True 0]
    wf0 wf1 show ?thesis by simp
qed

subsection \<open>Path classification: the three dicts\<close>

text \<open>The loop of lines 217 to 241 first builds the dict of every track, in order, and
  files each into its corridor; the three dicts do not interact.\<close>

lemma adj_loop_fold:
  "adj_loop body h cs acc = bindE (mapE body cs) (\<lambda>es. Inr (fold (adj_insert h) es acc))"
proof (induction cs arbitrary: acc)
  case Nil
  then show ?case by (simp add: bindE_def)
next
  case (Cons c cs)
  show ?case
  proof (cases "body c")
    case (Inl e)
    then show ?thesis by (simp add: bindE_def)
  next
    case (Inr ld)
    then show ?thesis
      by (cases "mapE body cs") (simp_all add: Cons.IH bindE_def)
  qed
qed

lemma mapE_nth:
  "mapE f cs = Inr es \<Longrightarrow> length es = length cs \<and> (\<forall>i < length cs. f (cs ! i) = Inr (es ! i))"
proof (induction cs arbitrary: es)
  case Nil
  then show ?case by simp
next
  case (Cons c cs)
  then obtain v vs where v: "f c = Inr v" and vs: "mapE f cs = Inr vs" and es: "es = v # vs"
    by (auto simp: bindE_eq_Inr)
  from Cons.IH [OF vs] v es show ?case
    by (auto simp: nth_Cons split: nat.splits)
qed

lemma fold_adj_insert:
  "fold (adj_insert h) es (l, c, r) =
     (file_all (filter (\<lambda>ld. corridor_of h ld = LeftCorridor) es) l,
      file_all (filter (\<lambda>ld. corridor_of h ld = CenterCorridor) es) c,
      file_all (filter (\<lambda>ld. corridor_of h ld = RightCorridor) es) r)"
  by (induction es arbitrary: l c r) (auto simp: file_all_def corridor_of_def)

lemma file_all_keys: "fst ` set (file_all es d) = fst ` set d \<union> (\<lambda>ld. \<bar>adj_dPath ld\<bar>) ` set es"
  by (induction es arbitrary: d) (auto simp: file_all_def AList.dom_update)

lemma file_all_distinct: "distinct (map fst d) \<Longrightarrow> distinct (map fst (file_all es d))"
  by (induction es arbitrary: d) (auto simp: file_all_def AList.distinct_update)

lemma file_all_map_of:
  "map_of (file_all es d) = map_of (rev (map (\<lambda>ld. (\<bar>adj_dPath ld\<bar>, ld)) es) @ d)"
proof (induction es arbitrary: d)
  case Nil
  then show ?case by (simp add: file_all_def)
next
  case (Cons e es)
  have "map_of (file_all (e # es) d) = map_of (file_all es (AList.update \<bar>adj_dPath e\<bar> e d))"
    by (simp add: file_all_def)
  also have "\<dots> = map_of (rev (map (\<lambda>ld. (\<bar>adj_dPath ld\<bar>, ld)) es) @ AList.update \<bar>adj_dPath e\<bar> e d)"
    by (rule Cons.IH)
  also have "\<dots> = map_of (AList.update \<bar>adj_dPath e\<bar> e d) ++ map_of (rev (map (\<lambda>ld. (\<bar>adj_dPath ld\<bar>, ld)) es))"
    by (rule map_of_append)
  also have "map_of (AList.update \<bar>adj_dPath e\<bar> e d) = map_of ((\<bar>adj_dPath e\<bar>, e) # d)"
    by (simp add: AList.update_conv')
  also have "map_of ((\<bar>adj_dPath e\<bar>, e) # d) ++ map_of (rev (map (\<lambda>ld. (\<bar>adj_dPath ld\<bar>, ld)) es))
      = map_of (rev (map (\<lambda>ld. (\<bar>adj_dPath ld\<bar>, ld)) es) @ (\<bar>adj_dPath e\<bar>, e) # d)"
    by (rule map_of_append [symmetric])
  finally show ?case by simp
qed

text \<open>The value under a key is the last dict filed under it: no later dict of the sequence
  goes to the same corridor with the same key.\<close>

lemma map_of_rev_last:
  "map_of (rev (map (\<lambda>ld. (key ld, ld)) (filter P es))) k = Some v
     \<Longrightarrow> \<exists>i < length es. es ! i = v \<and> P v \<and> key v = k
           \<and> (\<forall>j. i < j \<and> j < length es \<longrightarrow> \<not> (P (es ! j) \<and> key (es ! j) = k))"
proof (induction es rule: rev_induct)
  case Nil
  then show ?case by simp
next
  case (snoc e es)
  show ?case
  proof (cases "P e \<and> key e = k")
    case True
    with snoc.prems have "v = e" by simp
    moreover have "\<forall>j. length es < j \<and> j < length (es @ [e])
        \<longrightarrow> \<not> (P ((es @ [e]) ! j) \<and> key ((es @ [e]) ! j) = k)"
      by auto
    ultimately show ?thesis using True
      by (intro exI [of _ "length es"]) simp
  next
    case False
    with snoc.prems have "map_of (rev (map (\<lambda>ld. (key ld, ld)) (filter P es))) k = Some v"
      by (auto split: if_splits)
    from snoc.IH [OF this] obtain i where i: "i < length es" "es ! i = v" "P v" "key v = k"
      "\<forall>j. i < j \<and> j < length es \<longrightarrow> \<not> (P (es ! j) \<and> key (es ! j) = k)"
      by blast
    have "\<forall>j. i < j \<and> j < length (es @ [e])
        \<longrightarrow> \<not> (P ((es @ [e]) ! j) \<and> key ((es @ [e]) ! j) = k)"
      using i(5) False by (auto simp: nth_append)
    with i(1-4) show ?thesis
      by (intro exI [of _ i]) (simp add: nth_append)
  qed
qed

lemma file_all_entry:
  assumes "(k, v) \<in> set (file_all (filter P es) [])"
  shows "\<exists>i < length es. es ! i = v \<and> P v \<and> \<bar>adj_dPath v\<bar> = k
           \<and> (\<forall>j. i < j \<and> j < length es \<longrightarrow> \<not> (P (es ! j) \<and> \<bar>adj_dPath (es ! j)\<bar> = k))"
proof -
  have "distinct (map fst (file_all (filter P es) []))"
    by (rule file_all_distinct) simp
  with assms have "map_of (file_all (filter P es) []) k = Some v" by simp
  then have "map_of (rev (map (\<lambda>ld. (\<bar>adj_dPath ld\<bar>, ld)) (filter P es))) k = Some v"
    by (simp add: file_all_map_of)
  from map_of_rev_last [OF this] show ?thesis .
qed

lemma file_all_length: "length (file_all es []) = card ((\<lambda>ld. \<bar>adj_dPath ld\<bar>) ` set es)"
proof -
  have "distinct (map fst (file_all es []))"
    by (rule file_all_distinct) simp
  from distinct_card [OF this]
  have "card (fst ` set (file_all es [])) = length (file_all es [])"
    by simp
  then show ?thesis by (simp add: file_all_keys)
qed

lemma file_all_length_le: "length (file_all es []) \<le> length es"
  unfolding file_all_length by (metis card_image_le List.finite_set card_length le_trans)

lemma file_all_length_less:
  assumes "i < j" and "j < length es" and "P (es ! i)" and "P (es ! j)"
    and "\<bar>adj_dPath (es ! i)\<bar> = \<bar>adj_dPath (es ! j)\<bar>"
  shows "length (file_all (filter P es) []) < length (filter P es)"
proof -
  let ?key = "\<lambda>ld. \<bar>adj_dPath ld\<bar>"
  have "\<not> distinct (map ?key (filter P es))"
  proof
    assume dist: "distinct (map ?key (filter P es))"
    have es: "es = take j es @ es ! j # drop (Suc j) es"
      using assms(2) by (rule id_take_nth_drop)
    have "es ! i \<in> set (filter P (take j es))"
      using assms(1-3) by (auto simp: in_set_conv_nth intro!: exI [of _ i])
    then have "?key (es ! j) \<in> ?key ` set (filter P (take j es))"
      using assms(5) by (metis image_eqI)
    moreover have "filter P es = filter P (take j es) @ es ! j # filter P (drop (Suc j) es)"
      using assms(4) by (subst es) simp
    ultimately show False using dist by simp
  qed
  then have "card (set (map ?key (filter P es))) \<noteq> length (map ?key (filter P es))"
    using card_distinct by blast
  moreover have "card (set (map ?key (filter P es))) \<le> length (map ?key (filter P es))"
    by (rule card_length)
  ultimately show ?thesis by (simp add: file_all_length)
qed

lemma corridor_partition:
  "length (filter (\<lambda>ld. corridor_of h ld = LeftCorridor) es)
     + length (filter (\<lambda>ld. corridor_of h ld = CenterCorridor) es)
     + length (filter (\<lambda>ld. corridor_of h ld = RightCorridor) es) = length es"
proof (induction es)
  case Nil
  then show ?case by simp
next
  case (Cons e es)
  then show ?case by (cases "corridor_of h e") simp_all
qed

text \<open>Line 243 on a dict without duplicate keys whose keys are \<open>|dPath|\<close> of their values.\<close>

lemma by_sorted_keys_map:
  "by_sorted_keys d = map (\<lambda>k. the (map_of d k)) (sort (map fst d))"
proof -
  have "\<forall>k \<in> set (sort (map fst d)). map_of d k \<noteq> None"
    by (auto simp: map_of_eq_None_iff)
  then have "List.map_filter (map_of d) ks = map (\<lambda>k. the (map_of d k)) ks"
    if "set ks \<subseteq> set (sort (map fst d))" for ks
    using that by (induction ks) auto
  then show ?thesis by (simp add: by_sorted_keys_def)
qed

lemma by_sorted_keys_length: "length (by_sorted_keys d) = length d"
  by (simp add: by_sorted_keys_map)

lemma by_sorted_keys_set:
  "distinct (map fst d) \<Longrightarrow> set (by_sorted_keys d) = snd ` set d"
proof -
  assume dist: "distinct (map fst d)"
  have "(\<lambda>k. the (map_of d k)) ` fst ` set d = snd ` set d"
  proof (intro set_eqI iffI)
    fix v assume "v \<in> (\<lambda>k. the (map_of d k)) ` fst ` set d"
    then obtain k w where "(k, w) \<in> set d" and "v = the (map_of d k)" by auto
    with dist show "v \<in> snd ` set d" by (force simp: rev_image_eqI)
  next
    fix v assume "v \<in> snd ` set d"
    then obtain k where "(k, v) \<in> set d" by auto
    with dist have "map_of d k = Some v" by simp
    with \<open>(k, v) \<in> set d\<close> show "v \<in> (\<lambda>k. the (map_of d k)) ` fst ` set d"
      by (metis image_eqI fst_conv option.sel)
  qed
  then show ?thesis by (simp add: by_sorted_keys_map)
qed

lemma by_sorted_keys_sorted:
  assumes "distinct (map fst d)" and "\<forall>(k, v) \<in> set d. key v = k"
  shows "sorted (map key (by_sorted_keys d))"
proof -
  have "key (the (map_of d k)) = k" if "k \<in> set (sort (map fst d))" for k
  proof -
    from that obtain v where "(k, v) \<in> set d" by auto
    with assms show ?thesis by auto
  qed
  then have "map (\<lambda>k. key (the (map_of d k))) (sort (map fst d)) = sort (map fst d)"
    by (intro map_idI)
  then have "map key (by_sorted_keys d) = sort (map fst d)"
    by (simp add: by_sorted_keys_map comp_def)
  then show ?thesis by simp
qed

text \<open>What a call that returns has computed.\<close>

lemma path_adjacent_leads_result:
  assumes "get_path_adjacent_leads ts v_ego md lw clusters mix = Inr (ll, lc, lr)"
    and "clusters \<noteq> []"
  shows "\<exists>es. mapE (path_entry ts md lw mix) (map snd clusters) = Inr es
     \<and> ll = by_sorted_keys (file_all (filter (\<lambda>ld. corridor_of (lw / 2) ld = LeftCorridor) es) [])
     \<and> lc = sort_key (\<lambda>c. ld_dRel (adj_ld c))
              (map snd (file_all (filter (\<lambda>ld. corridor_of (lw / 2) ld = CenterCorridor) es) []))
     \<and> lr = by_sorted_keys (file_all (filter (\<lambda>ld. corridor_of (lw / 2) ld = RightCorridor) es) [])"
proof -
  from assms obtain ll_x c_y where lane: "lane_centerline ts md lw = Inr (ll_x, c_y)"
    by (cases "lane_centerline ts md lw") (auto simp: get_path_adjacent_leads_def bindE_def)
  from assms lane obtain md_y md_x where path: "model_path ts md = Inr (md_y, md_x)"
    by (cases "model_path ts md") (auto simp: get_path_adjacent_leads_def bindE_def)
  have entry: "path_entry ts md lw mix = adj_entry md mix md_y md_x ll_x c_y"
    by (rule ext) (simp add: path_entry_def lane path bindE_Inr)
  from assms lane path obtain l c r where
    loop: "adj_loop (adj_entry md mix md_y md_x ll_x c_y) (lw / 2) (map snd clusters) ([], [], []) = Inr (l, c, r)"
    and out: "ll = by_sorted_keys l" "lc = sort_key (\<lambda>c. ld_dRel (adj_ld c)) (map snd c)"
      "lr = by_sorted_keys r"
    by (cases "adj_loop (adj_entry md mix md_y md_x ll_x c_y) (lw / 2) (map snd clusters) ([], [], [])")
       (auto simp: get_path_adjacent_leads_def bindE_def Let_def)
  from loop obtain es where es: "mapE (adj_entry md mix md_y md_x ll_x c_y) (map snd clusters) = Inr es"
    and "fold (adj_insert (lw / 2)) es ([], [], []) = (l, c, r)"
    by (auto simp: adj_loop_fold bindE_eq_Inr)
  with out show ?thesis
    by (simp add: entry fold_adj_insert)
qed

lemma corridor_of_Center:
  "corridor_of h ld = CenterCorridor \<longleftrightarrow> \<bar>adj_dPath ld\<bar> < h \<and> ld_vLeadK (adj_ld ld) > - 1"
  by (simp add: corridor_of_def)

lemma corridor_of_Left:
  "corridor_of h ld = LeftCorridor \<longleftrightarrow>
     \<not> (\<bar>adj_dPath ld\<bar> < h \<and> ld_vLeadK (adj_ld ld) > - 1) \<and> adj_dPath ld < 0"
  by (simp add: corridor_of_def)

lemma corridor_of_Right:
  "corridor_of h ld = RightCorridor \<longleftrightarrow>
     \<not> (\<bar>adj_dPath ld\<bar> < h \<and> ld_vLeadK (adj_ld ld) > - 1) \<and> \<not> adj_dPath ld < 0"
  by (simp add: corridor_of_def)

text \<open>
  C8. When path classification returns the lists left, center, right: every record of the
  center list has \<open>|dPath| < laneWidth/2\<close> and \<open>vLeadK > -1\<close>; every record of the left
  list fails that test and has \<open>dPath < 0\<close>; every record of the right list fails both.
  Left and right are in ascending order of \<open>|dPath|\<close>, center in ascending order of
  \<open>dRel\<close>. Every record comes from a track of the map, and every track of the map is
  represented in the list of its corridor by a record with its \<open>|dPath|\<close>.
\<close>

theorem classification_and_order:
  assumes "get_path_adjacent_leads ts v_ego md lw clusters mix = Inr (ll, lc, lr)"
  shows "(\<forall>ld \<in> set lc. \<bar>adj_dPath ld\<bar> < lw / 2 \<and> ld_vLeadK (adj_ld ld) > - 1)
     \<and> (\<forall>ld \<in> set ll. \<not> (\<bar>adj_dPath ld\<bar> < lw / 2 \<and> ld_vLeadK (adj_ld ld) > - 1) \<and> adj_dPath ld < 0)
     \<and> (\<forall>ld \<in> set lr. \<not> (\<bar>adj_dPath ld\<bar> < lw / 2 \<and> ld_vLeadK (adj_ld ld) > - 1) \<and> \<not> adj_dPath ld < 0)
     \<and> sorted (map (\<lambda>ld. \<bar>adj_dPath ld\<bar>) ll)
     \<and> sorted (map (\<lambda>ld. \<bar>adj_dPath ld\<bar>) lr)
     \<and> sorted (map (\<lambda>ld. ld_dRel (adj_ld ld)) lc)
     \<and> (\<forall>ld \<in> set (ll @ lc @ lr). \<exists>c \<in> snd ` set clusters. path_entry ts md lw mix c = Inr ld)
     \<and> (\<forall>c \<in> snd ` set clusters. \<exists>ld. path_entry ts md lw mix c = Inr ld
          \<and> (\<exists>ld' \<in> set (case corridor_of (lw / 2) ld of
                             LeftCorridor \<Rightarrow> ll | CenterCorridor \<Rightarrow> lc | RightCorridor \<Rightarrow> lr).
                \<bar>adj_dPath ld'\<bar> = \<bar>adj_dPath ld\<bar>))"
proof (cases "clusters = []")
  case True
  with assms show ?thesis
    by (simp add: get_path_adjacent_leads_def)
next
  case False
  let ?key = "\<lambda>ld. \<bar>adj_dPath ld\<bar>"
  let ?in = "\<lambda>X ld. corridor_of (lw / 2) ld = X"
  from path_adjacent_leads_result [OF assms False] obtain es where
    es: "mapE (path_entry ts md lw mix) (map snd clusters) = Inr es"
    and ll: "ll = by_sorted_keys (file_all (filter (?in LeftCorridor) es) [])"
    and lc: "lc = sort_key (\<lambda>c. ld_dRel (adj_ld c)) (map snd (file_all (filter (?in CenterCorridor) es) []))"
    and lr: "lr = by_sorted_keys (file_all (filter (?in RightCorridor) es) [])"
    by blast
  have dist: "distinct (map fst (file_all (filter (?in X) es) []))" for X
    by (rule file_all_distinct) simp
  have sets: "set ll = snd ` set (file_all (filter (?in LeftCorridor) es) [])"
    "set lc = snd ` set (file_all (filter (?in CenterCorridor) es) [])"
    "set lr = snd ` set (file_all (filter (?in RightCorridor) es) [])"
    by (simp_all add: ll lc lr by_sorted_keys_set [OF dist])
  have member: "ld \<in> set es \<and> ?in X ld \<and> ?key ld = k"
    if "(k, ld) \<in> set (file_all (filter (?in X) es) [])" for X k ld
    using file_all_entry [OF that] by auto
  have keyed: "\<forall>(k, ld) \<in> set (file_all (filter (?in X) es) []). ?key ld = k" for X
    using member by blast
  have nth: "length es = length (map snd clusters)"
    "\<forall>i < length (map snd clusters). path_entry ts md lw mix (map snd clusters ! i) = Inr (es ! i)"
    using mapE_nth [OF es] by simp_all
  have from_track: "\<exists>c \<in> snd ` set clusters. path_entry ts md lw mix c = Inr ld" if "ld \<in> set es" for ld
  proof -
    from that obtain i where "i < length es" "es ! i = ld"
      by (auto simp: in_set_conv_nth)
    with nth have "path_entry ts md lw mix (map snd clusters ! i) = Inr ld"
      and "map snd clusters ! i \<in> set (map snd clusters)"
      by simp_all
    then show ?thesis
      by (intro bexI [of _ "map snd clusters ! i"]) simp_all
  qed
  have corr: "corridor_of (lw / 2) ld = X \<and> ld \<in> set es"
    if "ld \<in> snd ` set (file_all (filter (?in X) es) [])" for X ld
  proof -
    from that obtain k where "(k, ld) \<in> set (file_all (filter (?in X) es) [])"
      by auto
    from member [OF this] show ?thesis by simp
  qed
  have c1: "\<forall>ld \<in> set lc. \<bar>adj_dPath ld\<bar> < lw / 2 \<and> ld_vLeadK (adj_ld ld) > - 1"
  proof
    fix ld assume "ld \<in> set lc"
    then have "corridor_of (lw / 2) ld = CenterCorridor"
      using corr [of ld CenterCorridor] by (simp only: sets)
    then show "\<bar>adj_dPath ld\<bar> < lw / 2 \<and> ld_vLeadK (adj_ld ld) > - 1"
      by (simp add: corridor_of_Center)
  qed
  have c2: "\<forall>ld \<in> set ll. \<not> (\<bar>adj_dPath ld\<bar> < lw / 2 \<and> ld_vLeadK (adj_ld ld) > - 1) \<and> adj_dPath ld < 0"
  proof
    fix ld assume "ld \<in> set ll"
    then have "corridor_of (lw / 2) ld = LeftCorridor"
      using corr [of ld LeftCorridor] by (simp only: sets)
    then show "\<not> (\<bar>adj_dPath ld\<bar> < lw / 2 \<and> ld_vLeadK (adj_ld ld) > - 1) \<and> adj_dPath ld < 0"
      by (simp add: corridor_of_Left)
  qed
  have c3: "\<forall>ld \<in> set lr. \<not> (\<bar>adj_dPath ld\<bar> < lw / 2 \<and> ld_vLeadK (adj_ld ld) > - 1) \<and> \<not> adj_dPath ld < 0"
  proof
    fix ld assume "ld \<in> set lr"
    then have "corridor_of (lw / 2) ld = RightCorridor"
      using corr [of ld RightCorridor] by (simp only: sets)
    then show "\<not> (\<bar>adj_dPath ld\<bar> < lw / 2 \<and> ld_vLeadK (adj_ld ld) > - 1) \<and> \<not> adj_dPath ld < 0"
      by (simp add: corridor_of_Right)
  qed
  have s1: "sorted (map ?key ll)" and s2: "sorted (map ?key lr)"
    unfolding ll lr by (rule by_sorted_keys_sorted [OF dist keyed])+
  have s3: "sorted (map (\<lambda>ld. ld_dRel (adj_ld ld)) lc)"
    unfolding lc by (rule sorted_sort_key)
  have c4: "\<forall>ld \<in> set (ll @ lc @ lr). \<exists>c \<in> snd ` set clusters. path_entry ts md lw mix c = Inr ld"
  proof
    fix ld assume "ld \<in> set (ll @ lc @ lr)"
    then have "ld \<in> set es"
      using corr [of ld LeftCorridor] corr [of ld CenterCorridor] corr [of ld RightCorridor]
      by (auto simp only: set_append Un_iff sets)
    then show "\<exists>c \<in> snd ` set clusters. path_entry ts md lw mix c = Inr ld"
      by (rule from_track)
  qed
  have c5: "\<forall>c \<in> snd ` set clusters. \<exists>ld. path_entry ts md lw mix c = Inr ld
          \<and> (\<exists>ld' \<in> set (case corridor_of (lw / 2) ld of
                             LeftCorridor \<Rightarrow> ll | CenterCorridor \<Rightarrow> lc | RightCorridor \<Rightarrow> lr).
                \<bar>adj_dPath ld'\<bar> = \<bar>adj_dPath ld\<bar>)"
  proof
    fix c assume "c \<in> snd ` set clusters"
    then have "c \<in> set (map snd clusters)" by simp
    then obtain i where i: "i < length (map snd clusters)" "map snd clusters ! i = c"
      by (auto simp only: in_set_conv_nth)
    with nth have entry: "path_entry ts md lw mix c = Inr (es ! i)" and mem: "es ! i \<in> set es"
      by auto
    define X where "X = corridor_of (lw / 2) (es ! i)"
    have "?key (es ! i) \<in> fst ` set (file_all (filter (?in X) es) [])"
      using mem by (simp add: file_all_keys X_def)
    then obtain ld' where ld': "(?key (es ! i), ld') \<in> set (file_all (filter (?in X) es) [])"
      by auto
    with member have "?key ld' = ?key (es ! i)" by blast
    moreover from ld' have "ld' \<in> snd ` set (file_all (filter (?in X) es) [])"
      by (rule rev_image_eqI) simp
    then have "ld' \<in> set (case X of LeftCorridor \<Rightarrow> ll | CenterCorridor \<Rightarrow> lc | RightCorridor \<Rightarrow> lr)"
      by (cases X) (simp_all add: sets)
    ultimately show "\<exists>ld. path_entry ts md lw mix c = Inr ld
          \<and> (\<exists>ld' \<in> set (case corridor_of (lw / 2) ld of
                             LeftCorridor \<Rightarrow> ll | CenterCorridor \<Rightarrow> lc | RightCorridor \<Rightarrow> lr).
                \<bar>adj_dPath ld'\<bar> = \<bar>adj_dPath ld\<bar>)"
      using entry X_def by blast
  qed
  from c1 c2 c3 s1 s2 s3 c4 c5 show ?thesis by blast
qed

lemma by_sorted_keys_keys:
  assumes "distinct (map fst d)" and "\<forall>(k, v) \<in> set d. key v = k"
  shows "map key (by_sorted_keys d) = sort (map fst d)"
proof -
  have "key (the (map_of d k)) = k" if "k \<in> set (sort (map fst d))" for k
  proof -
    from that obtain v where "(k, v) \<in> set d" by auto
    with assms show ?thesis by auto
  qed
  then have "map (\<lambda>k. key (the (map_of d k))) (sort (map fst d)) = sort (map fst d)"
    by (intro map_idI)
  then show ?thesis
    by (simp add: by_sorted_keys_map comp_def)
qed

lemma distinct_map_sort_key:
  "distinct (map key (sort_key g xs)) = distinct (map key xs)"
  by (simp add: distinct_map)

text \<open>
  C10. When path classification returns, each corridor list holds one record per key
  \<open>|dPath|\<close>: the keys of a list are pairwise different, every record of a list went to that
  corridor and is the last, in processing order, of the dicts that went there under its key,
  and conversely the last dict of every corridor and key is in the list of its corridor. So
  of two tracks of one corridor with equal \<open>|dPath|\<close> the earlier one is overwritten and the
  later-processed one of the tie is the one returned. The three lists together are never
  longer than the track map, and strictly shorter whenever two tracks go to the same
  corridor with equal \<open>|dPath|\<close>.
\<close>

theorem equal_dPath_overwrites:
  assumes "get_path_adjacent_leads ts v_ego md lw clusters mix = Inr (ll, lc, lr)"
  shows "length ll + length lc + length lr \<le> length clusters
     \<and> distinct (map (\<lambda>ld. \<bar>adj_dPath ld\<bar>) ll)
     \<and> distinct (map (\<lambda>ld. \<bar>adj_dPath ld\<bar>) lc)
     \<and> distinct (map (\<lambda>ld. \<bar>adj_dPath ld\<bar>) lr)
     \<and> (\<exists>es. mapE (path_entry ts md lw mix) (map snd clusters) = Inr es
          \<and> (\<forall>ld \<in> set ll. \<exists>i < length es. es ! i = ld
                \<and> corridor_of (lw / 2) ld = LeftCorridor
                \<and> (\<forall>j. i < j \<and> j < length es \<longrightarrow>
                      \<not> (corridor_of (lw / 2) (es ! j) = LeftCorridor
                         \<and> \<bar>adj_dPath (es ! j)\<bar> = \<bar>adj_dPath ld\<bar>)))
          \<and> (\<forall>ld \<in> set lc. \<exists>i < length es. es ! i = ld
                \<and> corridor_of (lw / 2) ld = CenterCorridor
                \<and> (\<forall>j. i < j \<and> j < length es \<longrightarrow>
                      \<not> (corridor_of (lw / 2) (es ! j) = CenterCorridor
                         \<and> \<bar>adj_dPath (es ! j)\<bar> = \<bar>adj_dPath ld\<bar>)))
          \<and> (\<forall>ld \<in> set lr. \<exists>i < length es. es ! i = ld
                \<and> corridor_of (lw / 2) ld = RightCorridor
                \<and> (\<forall>j. i < j \<and> j < length es \<longrightarrow>
                      \<not> (corridor_of (lw / 2) (es ! j) = RightCorridor
                         \<and> \<bar>adj_dPath (es ! j)\<bar> = \<bar>adj_dPath ld\<bar>)))
          \<and> (\<forall>i < length es.
                (\<forall>j. i < j \<and> j < length es \<longrightarrow>
                      \<not> (corridor_of (lw / 2) (es ! j) = corridor_of (lw / 2) (es ! i)
                         \<and> \<bar>adj_dPath (es ! j)\<bar> = \<bar>adj_dPath (es ! i)\<bar>))
                \<longrightarrow> es ! i \<in> set (case corridor_of (lw / 2) (es ! i) of
                                      LeftCorridor \<Rightarrow> ll | CenterCorridor \<Rightarrow> lc
                                    | RightCorridor \<Rightarrow> lr))
          \<and> ((\<exists>i j. i < j \<and> j < length es
                  \<and> corridor_of (lw / 2) (es ! i) = corridor_of (lw / 2) (es ! j)
                  \<and> \<bar>adj_dPath (es ! i)\<bar> = \<bar>adj_dPath (es ! j)\<bar>)
               \<longrightarrow> length ll + length lc + length lr < length clusters))"
proof (cases "clusters = []")
  case True
  with assms show ?thesis
    by (simp add: get_path_adjacent_leads_def)
next
  case False
  let ?key = "\<lambda>ld. \<bar>adj_dPath ld\<bar>"
  let ?in = "\<lambda>X ld. corridor_of (lw / 2) ld = X"
  from path_adjacent_leads_result [OF assms False] obtain es where
    es: "mapE (path_entry ts md lw mix) (map snd clusters) = Inr es"
    and ll: "ll = by_sorted_keys (file_all (filter (?in LeftCorridor) es) [])"
    and lc: "lc = sort_key (\<lambda>c. ld_dRel (adj_ld c)) (map snd (file_all (filter (?in CenterCorridor) es) []))"
    and lr: "lr = by_sorted_keys (file_all (filter (?in RightCorridor) es) [])"
    by blast
  have len: "length es = length clusters"
    using mapE_nth [OF es] by simp
  have lens: "length ll = length (file_all (filter (?in LeftCorridor) es) [])"
    "length lc = length (file_all (filter (?in CenterCorridor) es) [])"
    "length lr = length (file_all (filter (?in RightCorridor) es) [])"
    by (simp_all add: ll lc lr by_sorted_keys_length)
  have le: "length (file_all (filter (?in X) es) []) \<le> length (filter (?in X) es)" for X
    by (rule file_all_length_le)
  have total: "length ll + length lc + length lr \<le> length clusters"
    using le [of LeftCorridor] le [of CenterCorridor] le [of RightCorridor]
      corridor_partition [of "lw / 2" es]
    by (simp add: lens len [symmetric])
  have dist: "distinct (map fst (file_all (filter (?in X) es) []))" for X
    by (rule file_all_distinct) simp
  have sets: "set ll = snd ` set (file_all (filter (?in LeftCorridor) es) [])"
    "set lc = snd ` set (file_all (filter (?in CenterCorridor) es) [])"
    "set lr = snd ` set (file_all (filter (?in RightCorridor) es) [])"
    by (simp_all add: ll lc lr by_sorted_keys_set [OF dist])
  have entry: "\<exists>i < length es. es ! i = ld \<and> corridor_of (lw / 2) ld = X \<and> ?key ld = k
                \<and> (\<forall>j. i < j \<and> j < length es \<longrightarrow>
                      \<not> (corridor_of (lw / 2) (es ! j) = X \<and> ?key (es ! j) = k))"
    if "(k, ld) \<in> set (file_all (filter (?in X) es) [])" for X k ld
    using file_all_entry [OF that] by simp
  have keyed: "\<forall>(k, v) \<in> set (file_all (filter (?in X) es) []). ?key v = k" for X
    using entry by blast
  have member: "\<exists>i < length es. es ! i = ld \<and> corridor_of (lw / 2) ld = X
                \<and> (\<forall>j. i < j \<and> j < length es \<longrightarrow>
                      \<not> (corridor_of (lw / 2) (es ! j) = X \<and> ?key (es ! j) = ?key ld))"
    if "ld \<in> snd ` set (file_all (filter (?in X) es) [])" for X ld
  proof -
    from that obtain k where "(k, ld) \<in> set (file_all (filter (?in X) es) [])"
      by auto
    from entry [OF this] show ?thesis by auto
  qed
  have inl: "\<forall>ld \<in> set ll. \<exists>i < length es. es ! i = ld \<and> corridor_of (lw / 2) ld = LeftCorridor
                \<and> (\<forall>j. i < j \<and> j < length es \<longrightarrow>
                      \<not> (corridor_of (lw / 2) (es ! j) = LeftCorridor \<and> ?key (es ! j) = ?key ld))"
    using member [of _ LeftCorridor] by (simp only: sets) blast
  have inc: "\<forall>ld \<in> set lc. \<exists>i < length es. es ! i = ld \<and> corridor_of (lw / 2) ld = CenterCorridor
                \<and> (\<forall>j. i < j \<and> j < length es \<longrightarrow>
                      \<not> (corridor_of (lw / 2) (es ! j) = CenterCorridor \<and> ?key (es ! j) = ?key ld))"
    using member [of _ CenterCorridor] by (simp only: sets) blast
  have inr: "\<forall>ld \<in> set lr. \<exists>i < length es. es ! i = ld \<and> corridor_of (lw / 2) ld = RightCorridor
                \<and> (\<forall>j. i < j \<and> j < length es \<longrightarrow>
                      \<not> (corridor_of (lw / 2) (es ! j) = RightCorridor \<and> ?key (es ! j) = ?key ld))"
    using member [of _ RightCorridor] by (simp only: sets) blast
  have dl: "distinct (map ?key ll)" and dr: "distinct (map ?key lr)"
    unfolding ll lr by (simp_all add: by_sorted_keys_keys [OF dist keyed] dist)
  have kc: "map (\<lambda>x. \<bar>adj_dPath (snd x)\<bar>) (file_all (filter (?in CenterCorridor) es) [])
      = map fst (file_all (filter (?in CenterCorridor) es) [])"
    by (rule map_cong [OF refl]) (use keyed [of CenterCorridor] in auto)
  have dc: "distinct (map ?key lc)"
    unfolding lc distinct_map_sort_key map_map comp_def kc by (rule dist)
  have present: "es ! i \<in> set (case corridor_of (lw / 2) (es ! i) of
                    LeftCorridor \<Rightarrow> ll | CenterCorridor \<Rightarrow> lc | RightCorridor \<Rightarrow> lr)"
    if i: "i < length es"
      and lasti: "\<forall>j. i < j \<and> j < length es \<longrightarrow>
            \<not> (corridor_of (lw / 2) (es ! j) = corridor_of (lw / 2) (es ! i)
               \<and> ?key (es ! j) = ?key (es ! i))"
    for i
  proof -
    define X where "X = corridor_of (lw / 2) (es ! i)"
    have "es ! i \<in> set (filter (?in X) es)"
      using i by (simp add: X_def)
    then have "?key (es ! i) \<in> fst ` set (file_all (filter (?in X) es) [])"
      by (simp only: file_all_keys) blast
    then obtain v where v: "(?key (es ! i), v) \<in> set (file_all (filter (?in X) es) [])"
      by auto
    from entry [OF v] obtain i' where i': "i' < length es" "es ! i' = v"
      "corridor_of (lw / 2) v = X" "?key v = ?key (es ! i)"
      "\<forall>j. i' < j \<and> j < length es \<longrightarrow>
          \<not> (corridor_of (lw / 2) (es ! j) = X \<and> ?key (es ! j) = ?key (es ! i))"
      by blast
    have "i' = i"
    proof (rule ccontr)
      assume "i' \<noteq> i"
      then consider "i' < i" | "i < i'" by linarith
      then show False
      proof cases
        case 1
        with i'(5) i have "\<not> (corridor_of (lw / 2) (es ! i) = X \<and> ?key (es ! i) = ?key (es ! i))"
          by blast
        then show False by (simp add: X_def)
      next
        case 2
        with lasti i'(1-4) show False by (auto simp: X_def)
      qed
    qed
    with i'(2) v have "es ! i \<in> snd ` set (file_all (filter (?in X) es) [])"
      by (auto intro: rev_image_eqI)
    then show ?thesis
      unfolding X_def [symmetric] by (cases X) (simp_all add: sets)
  qed
  have strict: "length ll + length lc + length lr < length clusters"
    if "\<exists>i j. i < j \<and> j < length es
                  \<and> corridor_of (lw / 2) (es ! i) = corridor_of (lw / 2) (es ! j)
                  \<and> ?key (es ! i) = ?key (es ! j)"
  proof -
    from that obtain i j where ij: "i < j" "j < length es"
      "corridor_of (lw / 2) (es ! i) = corridor_of (lw / 2) (es ! j)" "?key (es ! i) = ?key (es ! j)"
      by blast
    define X where "X = corridor_of (lw / 2) (es ! j)"
    have "length (file_all (filter (?in X) es) []) < length (filter (?in X) es)"
      by (rule file_all_length_less [OF ij(1,2) _ _ ij(4)]) (simp_all add: X_def ij(3))
    with le [of LeftCorridor] le [of CenterCorridor] le [of RightCorridor]
      corridor_partition [of "lw / 2" es]
    show ?thesis
      by (cases X) (simp_all add: lens len [symmetric])
  qed
  from present have present': "\<forall>i < length es.
                (\<forall>j. i < j \<and> j < length es \<longrightarrow>
                      \<not> (corridor_of (lw / 2) (es ! j) = corridor_of (lw / 2) (es ! i)
                         \<and> ?key (es ! j) = ?key (es ! i)))
                \<longrightarrow> es ! i \<in> set (case corridor_of (lw / 2) (es ! i) of
                                      LeftCorridor \<Rightarrow> ll | CenterCorridor \<Rightarrow> lc
                                    | RightCorridor \<Rightarrow> lr)"
    by blast
  from strict have strict': "(\<exists>i j. i < j \<and> j < length es
                  \<and> corridor_of (lw / 2) (es ! i) = corridor_of (lw / 2) (es ! j)
                  \<and> ?key (es ! i) = ?key (es ! j))
               \<longrightarrow> length ll + length lc + length lr < length clusters"
    by blast
  show ?thesis
    apply (intro conjI)
        apply (rule total)
       apply (rule dl)
      apply (rule dc)
     apply (rule dr)
    apply (rule exI [of _ es])
    apply (intro conjI)
         apply (rule es)
        apply (rule inl)
       apply (rule inc)
      apply (rule inr)
     apply (rule present')
    apply (rule strict')
    done
qed

subsection \<open>Path classification on the example model outputs\<close>

lemma interp_hi_all_below: "\<forall>p \<in> set xp. p < xv \<Longrightarrow> interp_hi xv xp = length xp"
  by (induction xp) auto

lemma interp_zero_path:
  "interp d (map (\<lambda>i. real i * 4) [0..<33]) (replicate 33 0) = Inr 0"
proof -
  have "\<exists>w. interp d (map (\<lambda>i. real i * 4) [0..<33]) (replicate 33 0) = Inr w \<and> 0 \<le> w \<and> w \<le> 0"
    by (rule interp_bounds) simp_all
  then show ?thesis by auto
qed

lemma last_samples:
  "idx_last (map (\<lambda>i. real i * 4) [0..<33]) = Inr 128"
  "idx_last (map (\<lambda>i. real i * 5) [0..<33]) = Inr 160"
  by (simp_all add: idx_last_def last_map)

lemma lane_centerline_straight:
  "lw > 0 \<Longrightarrow>
     lane_centerline 33 (Some md_straight) lw = Inr (Some (map (\<lambda>i. real i * 5) [0..<33]), None)"
  by (simp add: lane_centerline_def md_straight_def lane_line_def idx_def bindE_def
      MIN_LANE_PROB_def Let_def)

lemma model_path_present:
  "model_path ts (Some d) = Inr (Some (xy_y (position d)), Some (xy_x (position d)))"
  by (simp add: model_path_def md_position_def bindE_def)

lemma meas_track_at:
  "meas (track_at i d y v v_ego) =
     Some \<lparr>dRel = d, yRel = y, vRel = v, vLead = v + v_ego, measured = True,
           vLeadK = v + v_ego, aLeadK = 0\<rparr>"
  by (simp add: track_at_def Track_update_def Track_init_def KF1D_init_def Let_def)

lemma get_RadarState2_track_at:
  "get_RadarState2 (track_at i d y v v_ego) 0 lead_none 0 =
     Inr \<lparr>ld_dRel = d, ld_yRel = y, ld_vRel = v, ld_vLead = v + v_ego, ld_vLeadK = v + v_ego,
          ld_aLeadK = 0, ld_aLeadTau = 1.5, ld_status = True, ld_fcw = False,
          ld_modelProb = 0, ld_radar = True, ld_radarTrackId = i\<rparr>"
  by (simp add: get_RadarState2_def meas_track_at is_potential_fcw_def)
     (simp add: track_at_def Track_update_def Track_init_def KF1D_init_def Let_def
        LEAD_ACCEL_TAU_def)

lemma adj_entry_straight:
  assumes "d \<le> 128"
  shows "adj_entry (Some md_straight) 0 (Some (replicate 33 0)) (Some (map (\<lambda>i. real i * 4) [0..<33]))
           ll_x None (track_at i d y v v_ego) =
     Inr (entry_at i d y v v_ego)"
proof -
  have use: "use_model_path (Some (replicate 33 0)) (Some (map (\<lambda>i. real i * 4) [0..<33])) ll_x None d
      = Inr True"
    using assms by (simp add: use_model_path_def bound_def last_samples bindE_Inr)
  have dPath: "track_dPath (Some (replicate 33 0)) (Some (map (\<lambda>i. real i * 4) [0..<33])) ll_x None
      (track_at i d y v v_ego) = Inr (- y)"
    by (simp add: track_dPath_def attr_Some [OF meas_track_at] use bound_def interp_zero_path
        bindE_Inr)
  have lead: "lm_prob lead_none = 0"
    by (simp add: lead_none_def)
  show ?thesis
    by (simp add: adj_entry_def dPath md_straight_def idx0_def lead get_RadarState2_track_at
        attr_Some [OF meas_track_at] bindE_Inr entry_at_def)
qed

lemma entry_at_sel:
  "adj_dPath (entry_at i d y v v_ego) = - y"
  "ld_vLeadK (adj_ld (entry_at i d y v v_ego)) = v + v_ego"
  "ld_dRel (adj_ld (entry_at i d y v v_ego)) = d"
  by (simp_all add: entry_at_def)

lemma path_adjacent_leads_split:
  "get_path_adjacent_leads 33 20 (Some md_straight) 3.6 tracks_split 0 =
     Inr ([], [entry_at 1 30 0.5 0 20], [entry_at 2 30 (- 2.5) 0 20])"
proof -
  have pos: "xy_y (position md_straight) = replicate 33 0"
    "xy_x (position md_straight) = map (\<lambda>i. real i * 4) [0..<33]"
    by (simp_all add: md_straight_def)
  show ?thesis
    by (simp add: get_path_adjacent_leads_def tracks_split_def lane_centerline_straight
        model_path_present pos adj_entry_straight bindE_Inr entry_at_sel by_sorted_keys_def)
qed

lemma path_adjacent_leads_tie:
  "get_path_adjacent_leads 33 20 (Some md_straight) 3.6 tracks_tie 0 =
     Inr ([entry_at 3 50 2.5 0 20], [entry_at 2 40 (- 0.5) 0 20], [])"
proof -
  have pos: "xy_y (position md_straight) = replicate 33 0"
    "xy_x (position md_straight) = map (\<lambda>i. real i * 4) [0..<33]"
    by (simp_all add: md_straight_def)
  show ?thesis
    by (simp add: get_path_adjacent_leads_def tracks_tie_def lane_centerline_straight
        model_path_present pos adj_entry_straight bindE_Inr entry_at_sel by_sorted_keys_def)
qed

text \<open>An instance, scenario 5 of the spec: lane width 3.6, a straight model path, two
  tracks at 30 m with \<open>yRel = 0.5\<close> and \<open>yRel = -2.5\<close>. The first goes to the center, the
  second to the right.\<close>

theorem classification_and_order_witness:
  "get_path_adjacent_leads 33 20 (Some md_straight) 3.6 tracks_split 0 =
     Inr ([], [entry_at 1 30 0.5 0 20], [entry_at 2 30 (- 2.5) 0 20])
   \<and> \<bar>adj_dPath (entry_at 1 30 0.5 0 20)\<bar> < 3.6 / 2
   \<and> ld_vLeadK (adj_ld (entry_at 1 30 0.5 0 20)) > - 1
   \<and> \<not> \<bar>adj_dPath (entry_at 2 30 (- 2.5) 0 20)\<bar> < 3.6 / 2
   \<and> \<not> adj_dPath (entry_at 2 30 (- 2.5) 0 20) < 0"
  using classification_and_order [OF path_adjacent_leads_split] path_adjacent_leads_split
  by (simp add: entry_at_sel)

text \<open>An instance: the tracks 1 and 2 at \<open>yRel = 0.5\<close> and \<open>yRel = -0.5\<close> on the same
  path, then track 3 far to the left. Tracks 1 and 2 are center tracks with \<open>|dPath| = 0.5\<close>;
  the center list holds track 2 alone, the left list track 3.\<close>

theorem equal_dPath_overwrites_witness:
  "get_path_adjacent_leads 33 20 (Some md_straight) 3.6 tracks_tie 0 =
     Inr ([entry_at 3 50 2.5 0 20], [entry_at 2 40 (- 0.5) 0 20], [])
   \<and> length [entry_at 3 50 2.5 0 20] + length [entry_at 2 40 (- 0.5) 0 20] + length ([] :: AdjLead list)
       < length tracks_tie"
  using equal_dPath_overwrites [OF path_adjacent_leads_tie] path_adjacent_leads_tie
  by (simp add: tracks_tie_def)

subsection \<open>Path classification: the guard of the model path\<close>

lemma interp_replicate:
  assumes "xp \<noteq> []" and "length xp = n"
  shows "interp d xp (replicate n c) = Inr c"
proof -
  have "\<exists>w. interp d xp (replicate n c) = Inr w \<and> c \<le> w \<and> w \<le> c"
    by (rule interp_bounds) (use assms in simp_all)
  then show ?thesis by auto
qed

lemma lane_centerline_near:
  "lw > 0 \<Longrightarrow>
     lane_centerline 33 (Some md_near) lw =
       Inr (Some (map (\<lambda>i. real i * 5) [0..<33]), Some (replicate 33 2))"
  by (simp add: lane_centerline_def md_near_def md_lanes_def md_straight_def lane_line_def idx_def
      bindE_def MIN_LANE_PROB_def Let_def np_add_def map_replicate_const)

lemma adj_entry_near:
  assumes "d \<le> 32"
  shows "adj_entry (Some md_near) 0 (Some (replicate 33 1)) (Some (map real [0..<33]))
     (Some (map (\<lambda>i. real i * 5) [0..<33])) (Some (replicate 33 2)) (track_at i d y v v_ego)
     = Inr ((entry_at i d y v v_ego)\<lparr>adj_dPath := - y - 1,
                                        adj_vLat := sqrt ((10 * (- y - 1))\<^sup>2 + d\<^sup>2)\<rparr>)"
proof -
  have last: "idx_last (map real [0..<33]) = Inr 32"
    by (simp add: idx_last_def last_map)
  have use: "use_model_path (Some (replicate 33 1)) (Some (map real [0..<33]))
      (Some (map (\<lambda>i. real i * 5) [0..<33])) (Some (replicate 33 2)) d = Inr True"
    using assms by (simp add: use_model_path_def bound_def last bindE_Inr)
  have path: "interp d (map real [0..<33]) (replicate 33 1) = Inr 1"
    by (rule interp_replicate) simp_all
  have dPath: "track_dPath (Some (replicate 33 1)) (Some (map real [0..<33]))
      (Some (map (\<lambda>i. real i * 5) [0..<33])) (Some (replicate 33 2)) (track_at i d y v v_ego)
      = Inr (- y - 1)"
    by (simp add: track_dPath_def attr_Some [OF meas_track_at] use bound_def path bindE_Inr)
  have lead: "lm_prob lead_none = 0"
    by (simp add: lead_none_def)
  have sq: "100 * (- y - 1)\<^sup>2 = (- (10 * y) - 10)\<^sup>2"
    by (simp add: power2_eq_square algebra_simps)
  show ?thesis
    by (simp add: adj_entry_def dPath md_near_def md_lanes_def md_straight_def idx0_def lead
        get_RadarState2_track_at attr_Some [OF meas_track_at] bindE_Inr entry_at_def sq)
qed

text \<open>
  C3. The claim says that the model path is taken only when the model output is present, its
  position trajectory has the full length and its last longitudinal sample exceeds 60 m, that
  \<open>md_y\<close> is null otherwise, and that the model-path formula is used for a track exactly when
  the model path is available and the track lies within its horizon. The code does not do
  that. The guard of line 207 joins its three tests with \<open>or\<close>: the path of \<open>md_near\<close>,
  which has 33 samples and ends at 32 m, is taken, the track at 30 m gets the deviation
  \<open>-0.5 - 1 = -1.5\<close> from it and goes to the center, where the lane centerline (at
  \<open>y = 2\<close>) would give \<open>-2.5\<close> and the left corridor; and without a model output the
  guard raises AttributeError instead of leaving \<open>md_y\<close> null. The second disjunct of line
  218 compares \<open>md_x[-1]\<close> with \<open>ll_x[-1]\<close>: on \<open>md_lanes\<close>, whose path ends at 128 m,
  the track at 140 m still gets the model-path formula (deviation \<open>-0.5 - 0\<close>).
\<close>

theorem model_path_guard_failing_input:
  "length (xy_x (position md_near)) = 33
   \<and> \<not> last (xy_x (position md_near)) > LEAD_PATH_DREL_MIN
   \<and> model_path 33 (Some md_near) = Inr (Some (replicate 33 1), Some (map real [0..<33]))
   \<and> lane_centerline 33 (Some md_near) 3.6 =
        Inr (Some (map (\<lambda>i. real i * 5) [0..<33]), Some (replicate 33 2))
   \<and> interp 30 (map (\<lambda>i. real i * 5) [0..<33]) (replicate 33 2) = Inr 2
   \<and> get_path_adjacent_leads 33 20 (Some md_near) 3.6 tracks_near 0 = Inr ([], [entry_near], [])
   \<and> adj_dPath entry_near = - 1.5
   \<and> model_path 33 None = Inl AttributeError
   \<and> model_path 33 (Some md_lanes) =
        Inr (Some (replicate 33 0), Some (map (\<lambda>i. real i * 4) [0..<33]))
   \<and> \<not> 140 \<le> last (map (\<lambda>i. real i * 4) [0..<33])
   \<and> track_dPath (Some (replicate 33 0)) (Some (map (\<lambda>i. real i * 4) [0..<33]))
        (Some (map (\<lambda>i. real i * 5) [0..<33])) (Some (replicate 33 2)) (track_at 3 140 0.5 0 20)
        = Inr (- 0.5 - 0)"
proof -
  have pos: "xy_y (position md_near) = replicate 33 1" "xy_x (position md_near) = map real [0..<33]"
    by (simp_all add: md_near_def)
  have len: "length (xy_x (position md_near)) = 33"
    and reach: "\<not> last (xy_x (position md_near)) > LEAD_PATH_DREL_MIN"
    by (simp_all add: pos last_map LEAD_PATH_DREL_MIN_def)
  have taken: "model_path 33 (Some md_near) = Inr (Some (replicate 33 1), Some (map real [0..<33]))"
    by (simp add: model_path_present pos)
  have center: "lane_centerline 33 (Some md_near) 3.6 =
        Inr (Some (map (\<lambda>i. real i * 5) [0..<33]), Some (replicate 33 2))"
    by (rule lane_centerline_near) simp
  have lane: "interp 30 (map (\<lambda>i. real i * 5) [0..<33]) (replicate 33 2) = Inr 2"
    by (rule interp_replicate) simp_all
  have dp: "adj_dPath entry_near = - 1.5" "ld_vLeadK (adj_ld entry_near) = 20"
    by (simp_all add: entry_near_def entry_at_def)
  have out: "get_path_adjacent_leads 33 20 (Some md_near) 3.6 tracks_near 0 = Inr ([], [entry_near], [])"
    by (simp add: get_path_adjacent_leads_def tracks_near_def lane_centerline_near
        model_path_present pos adj_entry_near bindE_Inr by_sorted_keys_def entry_near_def
        entry_at_def)
  have absent: "model_path 33 None = Inl AttributeError"
    by (simp add: model_path_def md_position_def bindE_def)
  have lanes: "model_path 33 (Some md_lanes) =
        Inr (Some (replicate 33 0), Some (map (\<lambda>i. real i * 4) [0..<33]))"
    by (simp add: model_path_present md_lanes_def md_straight_def)
  have far: "\<not> 140 \<le> last (map (\<lambda>i. real i * 4) [0..<33])"
    by (simp add: last_map)
  have use: "use_model_path (Some (replicate 33 0)) (Some (map (\<lambda>i. real i * 4) [0..<33]))
        (Some (map (\<lambda>i. real i * 5) [0..<33])) (Some (replicate 33 2)) 140 = Inr True"
    by (simp add: use_model_path_def bound_def last_samples bindE_Inr)
  have dPath: "track_dPath (Some (replicate 33 0)) (Some (map (\<lambda>i. real i * 4) [0..<33]))
        (Some (map (\<lambda>i. real i * 5) [0..<33])) (Some (replicate 33 2)) (track_at 3 140 0.5 0 20)
        = Inr (- 0.5 - 0)"
    by (simp add: track_dPath_def attr_Some [OF meas_track_at] use bound_def interp_zero_path
        bindE_Inr)
  from len reach taken center lane out dp(1) absent lanes far dPath show ?thesis
    by blast
qed

end
